theory Spec2Isabelle
  imports Main "HOL-Library.AList"
begin

section \<open>Python strings\<close>

text \<open>
  \<open>s.split(c)\<close> for a one-character separator: the pieces between the separators, empty
  pieces included; a string without the separator is its own single piece.
\<close>

fun split_on :: "char \<Rightarrow> string \<Rightarrow> string list" where
  "split_on c [] = [[]]"
| "split_on c (x # xs) =
     (if x = c then [] # split_on c xs
      else (case split_on c xs of [] \<Rightarrow> [[x]] | w # ws \<Rightarrow> (x # w) # ws))"

text \<open>\<open>str(n)\<close> for a non-negative integer: its decimal digits.\<close>

definition digit_char :: "nat \<Rightarrow> char" where
  "digit_char d = ''0123456789'' ! d"

fun str_nat :: "nat \<Rightarrow> string" where
  "str_nat n = (if n < 10 then [digit_char n] else str_nat (n div 10) @ [digit_char (n mod 10)])"

text \<open>\<open>p in s\<close> on strings: \<open>p\<close> occurs in \<open>s\<close> as a contiguous piece.\<close>

fun py_in :: "string \<Rightarrow> string \<Rightarrow> bool" where
  "py_in p [] = (p = [])"
| "py_in p (c # cs) = (take (length p) (c # cs) = p \<or> py_in p cs)"

text \<open>The exceptions the modelled code lets escape.\<close>

datatype exn = NoModuleLoaded | IncorrectParameter | MultipleModulesLoaded
  | ValueError | AttributeError | KeyError | KeyboardInterrupt | EOFError

subsection \<open>Decimal numerals are distinct\<close>

lemma digit_char_inj: "a < 10 \<Longrightarrow> b < 10 \<Longrightarrow> digit_char a = digit_char b \<Longrightarrow> a = b"
proof -
  assume a: "a < 10" and b: "b < 10" and e: "digit_char a = digit_char b"
  have A: "a \<in> {0,1,2,3,4,5,6,7,8,9}" using a by auto
  have B: "b \<in> {0,1,2,3,4,5,6,7,8,9}" using b by auto
  show ?thesis using A B e by (auto simp: digit_char_def)
qed

declare str_nat.simps [simp del]

lemma str_nat_nonempty: "str_nat n \<noteq> []"
  by (subst str_nat.simps) simp

lemma str_nat_inj: "str_nat n = str_nat m \<Longrightarrow> n = m"
proof (induction n arbitrary: m rule: str_nat.induct)
  case (1 n)
  show ?case
  proof (cases "n < 10")
    case True
    note n = this
    show ?thesis
    proof (cases "m < 10")
      case True
      with n "1.prems" show ?thesis
        by (auto simp: str_nat.simps [of n] str_nat.simps [of m] dest: digit_char_inj)
    next
      case False
      with n "1.prems" show ?thesis
        using str_nat_nonempty [of "m div 10"]
        by (auto simp: str_nat.simps [of n] str_nat.simps [of m])
    qed
  next
    case False
    note n = this
    show ?thesis
    proof (cases "m < 10")
      case True
      with n "1.prems" show ?thesis
        using str_nat_nonempty [of "n div 10"]
        by (auto simp: str_nat.simps [of n] str_nat.simps [of m])
    next
      case False
      with n "1.prems" have e: "str_nat (n div 10) = str_nat (m div 10)"
        and d: "digit_char (n mod 10) = digit_char (m mod 10)"
        by (auto simp: str_nat.simps [of n] str_nat.simps [of m])
      from "1.IH" [OF n e] have "n div 10 = m div 10" .
      moreover from d have "n mod 10 = m mod 10"
        by (intro digit_char_inj) simp_all
      ultimately show ?thesis
        by (metis div_mult_mod_eq)
    qed
  qed
qed

subsection \<open>The empty pattern\<close>

lemma py_in_empty: "py_in [] s"
  by (cases s) simp_all

section \<open>Background tasks (core/task.py, core/taskManager.py)\<close>

text \<open>
  A \<open>Task\<close> object as the manager sees it. \<open>func\<close>, \<open>targs\<close> and \<open>kwargs\<close> are the
  attributes \<open>function\<close>, \<open>args\<close> and \<open>kwargs\<close>; \<open>state\<close> is \<open>state.value\<close>, one of the
  strings the code writes; \<open>pid\<close> is \<open>None\<close> until the process is forked; \<open>proc_name\<close> is
  the attribute \<open>name\<close> that \<open>multiprocessing.Process\<close> gives every process object
  (\<open>getTasksList\<close> reads it), chosen by the interpreter when the object is built.
\<close>

datatype callable = Callable (fn_name: string)

record 'a task =
  func :: callable
  taskName :: string
  targs :: "'a list"
  kwargs :: "(string \<times> 'a) list"
  state :: string
  pid :: "nat option"
  outputFilename :: string
  proc_name :: string

text \<open>\<open>Task.__init__\<close>; \<open>pn\<close> is the process name the interpreter assigns.\<close>

definition Task :: "string \<Rightarrow> callable \<Rightarrow> string \<Rightarrow> 'a list \<Rightarrow> (string \<times> 'a) list \<Rightarrow> 'a task" where
  "Task pn f n a k =
     \<lparr>func = f, taskName = n, targs = a, kwargs = k, state = ''stopped'',
      pid = None, outputFilename = '''', proc_name = pn\<rparr>"

text \<open>
  \<open>Task.start\<close>, seen from the manager's process: the state flag, the pid the operating
  system gave the forked process, and the output file's name under the temporary directory.
\<close>

definition task_start :: "nat \<Rightarrow> string \<Rightarrow> 'a task \<Rightarrow> 'a task" where
  "task_start os_pid temp_dir t =
     t\<lparr>state := ''running'', pid := Some os_pid,
       outputFilename := temp_dir @ ''/'' @ taskName t @ ''-'' @ str_nat os_pid @ ''.out''\<rparr>"

definition task_stop :: "'a task \<Rightarrow> 'a task" where
  "task_stop t = t\<lparr>state := ''stopped''\<rparr>"

definition str_pid :: "nat option \<Rightarrow> string" where
  "str_pid p = (case p of None \<Rightarrow> ''None'' | Some n \<Rightarrow> str_nat n)"

definition toList :: "'a task \<Rightarrow> string list" where
  "toList t = [str_pid (pid t), taskName t, state t, outputFilename t]"

text \<open>
  The manager's dictionary \<open>tasks\<close>, in insertion order: \<open>AList.update\<close> is item
  assignment, \<open>AList.delete\<close> is \<open>del\<close>, \<open>map_of\<close> is the lookup.
\<close>

record 'a taskManager =
  tasks :: "(string \<times> 'a task) list"

definition init_taskManager :: "'a taskManager" where
  "init_taskManager = \<lparr>tasks = []\<rparr>"

definition has_task :: "string \<Rightarrow> 'a taskManager \<Rightarrow> bool" where
  "has_task n tm = (n \<in> set (map fst (tasks tm)))"

definition task_state :: "string \<Rightarrow> 'a taskManager \<Rightarrow> string option" where
  "task_state n tm = map_option state (map_of (tasks tm) n)"

text \<open>The name \<open>addTask\<close> tries after \<open>k\<close> collisions.\<close>

definition suffixed :: "string \<Rightarrow> nat \<Rightarrow> string" where
  "suffixed baseName k = (if k = 0 then baseName else baseName @ ''.'' @ str_nat k)"

text \<open>
  The \<open>while taskName in self.tasks\<close> loop of \<open>addTask\<close>: \<open>tname\<close> and \<open>counter\<close> are
  the loop's variables, \<open>keys\<close> the dictionary's keys. The loop ends because the names it
  tries are pairwise different and the dictionary is finite.
\<close>

function unique_name :: "string \<Rightarrow> string \<Rightarrow> nat \<Rightarrow> string list \<Rightarrow> string" where
  "unique_name baseName tname counter keys =
     (if tname \<in> set keys
      then unique_name baseName (baseName @ ''.'' @ str_nat counter) (counter + 1) keys
      else tname)"
  by pat_completeness auto
termination
proof (relation "measure (\<lambda>(b, tn, c, ks).
    card {s \<in> set ks. \<exists>k\<ge>c. s = b @ ''.'' @ str_nat k} + (if tn \<in> set ks then 1 else 0))",
    goal_cases)
  case 1
  show ?case by simp
next
  case (2 b tn c ks)
  let ?A = "{s \<in> set ks. \<exists>k\<ge>c. s = b @ ''.'' @ str_nat k}"
  let ?B = "{s \<in> set ks. \<exists>k\<ge>c + 1. s = b @ ''.'' @ str_nat k}"
  have fin: "finite ?A" by simp
  have sub: "?B \<subseteq> ?A" using Suc_leD by fastforce
  show ?case
  proof (cases "b @ ''.'' @ str_nat c \<in> set ks")
    case True
    then have "b @ ''.'' @ str_nat c \<in> ?A" by auto
    moreover have "b @ ''.'' @ str_nat c \<notin> ?B" by (auto dest: str_nat_inj)
    ultimately have "?B \<subset> ?A" using sub by blast
    then have "card ?B < card ?A" using fin by (rule psubset_card_mono [rotated])
    with True 2 show ?thesis by simp
  next
    case False
    have "card ?B \<le> card ?A" using sub fin by (simp add: card_mono)
    with False 2 show ?thesis by simp
  qed
qed

declare unique_name.simps [simp del]

text \<open>
  \<open>addTask(function, name, args, kwargs)\<close>: returns the resolved name and stores a new
  \<open>Task\<close> under it.
\<close>

definition addTask ::
  "string \<Rightarrow> callable \<Rightarrow> string \<Rightarrow> 'a list \<Rightarrow> (string \<times> 'a) list \<Rightarrow> 'a taskManager
     \<Rightarrow> string \<times> 'a taskManager" where
  "addTask pn f nm a k tm =
     (let baseName = (if nm \<noteq> [] then nm else fn_name f);
          tname = unique_name baseName baseName 1 (map fst (tasks tm))
      in (tname, tm\<lparr>tasks := AList.update tname (Task pn f tname a k) (tasks tm)\<rparr>))"

text \<open>\<open>startTask(name)\<close>; \<open>os_pid\<close> is the pid of the forked process.\<close>

definition startTask :: "nat \<Rightarrow> string \<Rightarrow> string \<Rightarrow> 'a taskManager \<Rightarrow> bool \<times> 'a taskManager" where
  "startTask os_pid temp_dir n tm =
     (case map_of (tasks tm) n of
        Some t \<Rightarrow>
          if state t = ''stopped''
          then (True, tm\<lparr>tasks := AList.update n (task_start os_pid temp_dir t) (tasks tm)\<rparr>)
          else (False, tm)
      | None \<Rightarrow> (False, tm))"

text \<open>
  \<open>stopTask(name)\<close>: the children and the process are terminated in the operating system,
  the task object is stopped, and its entry is deleted from the dictionary.
\<close>

definition stopTask :: "string \<Rightarrow> 'a taskManager \<Rightarrow> bool \<times> 'a taskManager" where
  "stopTask n tm =
     (case map_of (tasks tm) n of
        Some t \<Rightarrow>
          if state t = ''running''
          then (True, tm\<lparr>tasks := AList.delete n (AList.update n (task_stop t) (tasks tm))\<rparr>)
          else (False, tm)
      | None \<Rightarrow> (False, tm))"

text \<open>\<open>restartTask(name)\<close>: stop, a new \<open>Task\<close> object under the same name, start.\<close>

definition restartTask ::
  "string \<Rightarrow> nat \<Rightarrow> string \<Rightarrow> string \<Rightarrow> 'a taskManager \<Rightarrow> bool \<times> 'a taskManager" where
  "restartTask pn os_pid temp_dir n tm =
     (case map_of (tasks tm) n of
        Some t \<Rightarrow>
          (let tm1 = snd (stopTask n tm);
               new = Task pn (func t) n (targs t) (kwargs t)
           in (True, tm1\<lparr>tasks := AList.update n (task_start os_pid temp_dir new) (tasks tm1)\<rparr>))
      | None \<Rightarrow> (False, tm))"

text \<open>
  The one change that does not come from the manager: \<open>state\<close> is a value shared with the
  forked process (\<open>multiprocessing.Manager().Value\<close>), and that process writes \<open>ended\<close>
  into it when the task's function returns or raises (\<open>Task.run\<close>, the \<open>finally\<close> clause
  of task.py, line 50). Only a running task has such a process.
\<close>

definition task_ended :: "string \<Rightarrow> 'a taskManager \<Rightarrow> 'a taskManager" where
  "task_ended n tm =
     (case map_of (tasks tm) n of
        Some t \<Rightarrow>
          if state t = ''running''
          then tm\<lparr>tasks := AList.update n (t\<lparr>state := ''ended''\<rparr>) (tasks tm)\<rparr>
          else tm
      | None \<Rightarrow> tm)"

text \<open>
  \<open>stopAllTasks()\<close> reads the flag of one task twice: in its own test
  \<open>self.tasks[task].state.value == "running"\<close> (taskManager.py, line 94), and, when that
  test holds, again in the test of \<open>stopTask\<close> (line 64). Nothing locks the flag, so the
  task's process may write \<open>ended\<close> before the first read, between the two reads, or
  not before the second read. \<open>ending\<close> names these three cases for one task, and a
  schedule gives the case of every task.
\<close>

datatype ending = Keeps_running | Ends_before_check | Ends_between_checks

text \<open>
  \<open>stopAllTasks()\<close>: the loop runs over the keys of a copy of the dictionary; the lookup
  \<open>self.tasks[task]\<close> raises \<open>KeyError\<close> on a key that is gone. \<open>tm0\<close> is the manager as
  the read of line 94 finds it, and the argument of \<open>stopTask\<close> the manager as the read of
  line 64 finds it.
\<close>

fun stopAll_loop ::
  "(string \<Rightarrow> ending) \<Rightarrow> string list \<Rightarrow> 'a taskManager \<Rightarrow> exn + 'a taskManager" where
  "stopAll_loop sched [] tm = Inr tm"
| "stopAll_loop sched (k # ks) tm =
     (let tm0 = (if sched k = Ends_before_check then task_ended k tm else tm)
      in case map_of (tasks tm0) k of
           None \<Rightarrow> Inl KeyError
         | Some t \<Rightarrow>
             if state t = ''running''
             then stopAll_loop sched ks
                    (snd (stopTask k
                       (if sched k = Ends_between_checks then task_ended k tm0 else tm0)))
             else stopAll_loop sched ks (tm0\<lparr>tasks := AList.delete k (tasks tm0)\<rparr>))"

definition stopAllTasks :: "(string \<Rightarrow> ending) \<Rightarrow> 'a taskManager \<Rightarrow> exn + 'a taskManager" where
  "stopAllTasks sched tm = stopAll_loop sched (map fst (tasks tm)) tm"

text \<open>\<open>getTasksList(pattern)\<close>: one row per task that passes the filter, in dictionary order.\<close>

definition getTasksList :: "string \<Rightarrow> 'a taskManager \<Rightarrow> string list list" where
  "getTasksList pattern tm =
     map toList
       (filter (\<lambda>t. py_in pattern (proc_name t) \<or> py_in pattern (str_pid (pid t))
                     \<or> py_in pattern (state t))
          (map snd (tasks tm)))"

text \<open>
  What makes the association list a dictionary of tasks: keys are unique, and every task
  is stored under its own \<open>taskName\<close>.
\<close>

definition tm_wf :: "'a taskManager \<Rightarrow> bool" where
  "tm_wf tm = (distinct (map fst (tasks tm)) \<and> list_all (\<lambda>(k, t). taskName t = k) (tasks tm))"

text \<open>
  Successive \<open>addTask\<close> calls with one requested name: each call brings its own process
  name, function and arguments; the result lists the names returned, in call order.
\<close>

fun addTasks ::
  "(string \<times> callable \<times> 'a list \<times> (string \<times> 'a) list) list \<Rightarrow> string \<Rightarrow> 'a taskManager
     \<Rightarrow> string list \<times> 'a taskManager" where
  "addTasks [] nm tm = ([], tm)"
| "addTasks ((pn, f, a, k) # calls) nm tm =
     (case addTask pn f nm a k tm of (n, tm') \<Rightarrow>
        (case addTasks calls nm tm' of (ns, tm'') \<Rightarrow> (n # ns, tm'')))"

text \<open>
  A manager reached by three \<open>addTask\<close> calls, two \<open>startTask\<close> calls and the end of
  one task: it holds one running, one ended and one stopped task.
\<close>

definition example_tasks :: "nat taskManager" where
  "example_tasks =
     (let tm1 = snd (addTask ''Task-1'' (Callable ''sniff'') ''sniff'' [] [] init_taskManager);
          tm2 = snd (addTask ''Task-2'' (Callable ''scan'') ''scan'' [] [] tm1);
          tm3 = snd (addTask ''Task-3'' (Callable ''idle'') ''idle'' [] [] tm2);
          tm4 = snd (startTask 42 ''/tmp'' ''sniff'' tm3);
          tm5 = snd (startTask 43 ''/tmp'' ''scan'' tm4)
      in task_ended ''scan'' tm5)"

section \<open>Modules, slots and shortcuts (core/module.py, core/loader.py, core/config.py)\<close>

text \<open>
  What \<open>_set\<close> returns when it does not raise: \<open>True\<close>, \<open>False\<close>, or \<open>None\<close> when
  control falls off the end of the function.
\<close>

datatype pyret = PyTrue | PyFalse | PyNone

text \<open>
  A module instance. \<open>args\<close>, \<open>dynamicArgs\<close> and \<open>sdrConfig\<close> are its attributes;
  \<open>is_wireless\<close> is \<open>isinstance(m, WirelessModule)\<close>. The concrete modules are outside the
  core: \<open>behaviour\<close> stands for what \<open>prerun\<close>, \<open>run\<close> and \<open>postrun\<close> of the instance do
  with the arguments they find: they return the \<open>success\<close> flag and the \<open>output\<close>
  dictionary and leave the instance with new arguments, or they raise.
\<close>

datatype 'v outcome = Returns bool "string \<rightharpoonup> 'v" "string \<rightharpoonup> 'v" | Raises exn

record 'v module =
  args :: "string \<rightharpoonup> 'v"
  dynamicArgs :: bool
  sdrConfig :: "string \<rightharpoonup> 'v"
  is_wireless :: bool
  behaviour :: "(string \<rightharpoonup> 'v) \<Rightarrow> (string \<rightharpoonup> 'v) \<Rightarrow> 'v outcome"

text \<open>\<open>Module.execute\<close>: the instance after the call, and what the call gave.\<close>

definition execute :: "'v module \<Rightarrow> 'v module \<times> (exn + bool \<times> (string \<rightharpoonup> 'v))" where
  "execute m =
     (case behaviour m (args m) (sdrConfig m) of
        Returns success output args' \<Rightarrow> (m\<lparr>args := args'\<rparr>, Inr (success, output))
      | Raises e \<Rightarrow> (m, Inl e))"

text \<open>
  The dictionaries \<open>load\<close> builds. A module dictionary \<open>{"name": n, "module": output}\<close> is
  a pair; inside a shortcut \<open>output\<close> may be \<open>None\<close>. A slot of the pipeline is a module
  dictionary or a shortcut dictionary \<open>{"name", "shortcut", "mapping"}\<close>: its members are
  module dictionaries, and its \<open>mapping\<close> is the very dictionary stored in
  \<open>loaded_shortcuts\<close>, so the slot keeps the shortcut's key and every read and write goes
  to that table.
\<close>

type_synonym 'v mdict = "string \<times> 'v module option"

datatype 'v slot =
  ModuleSlot string "'v module option"
| ShortcutSlot string "'v mdict list" string

fun slot_name :: "'v slot \<Rightarrow> string" where
  "slot_name (ModuleSlot n mo) = n"
| "slot_name (ShortcutSlot n members ref) = n"

text \<open>
  One entry of a shortcut's mapping, \<open>{"parameters": [...], "value": ...}\<close>, and a
  shortcut as \<open>Config.generateShortcuts\<close> stores it (\<open>modules\<close>, \<open>description\<close>,
  \<open>mapping\<close>). The mapping is kept in the file's order: \<open>load\<close> iterates over it.
\<close>

record 'v mapping_entry =
  parameters :: "string list"
  mvalue :: "'v option"

record 'v shortcut =
  sc_modules :: string
  sc_description :: string
  sc_mapping :: "(string \<times> 'v mapping_entry) list"

text \<open>
  The application: the loader's table of module classes (each class as the instance its
  constructor builds, \<open>None\<close> when the constructor raises), the configuration's \<open>datas\<close>,
  the shortcuts, the installed pipeline \<open>modules\<close>, and the keys of
  \<open>wireless.SDRDevice.SDR_PARAMETERS\<close>, a table of a library outside the core.
\<close>

record 'v app =
  modulesList :: "string \<rightharpoonup> 'v module option"
  datas :: "string \<rightharpoonup> (string \<rightharpoonup> 'v)"
  loaded_shortcuts :: "string \<rightharpoonup> 'v shortcut"
  modules :: "'v slot list"
  SDR_PARAMETERS :: "string list"

text \<open>\<open>Loader.load\<close>: a new instance, or \<open>None\<close>.\<close>

definition loader_load :: "(string \<rightharpoonup> 'v module option) \<Rightarrow> string \<Rightarrow> 'v module option" where
  "loader_load ml moduleName = (case ml moduleName of Some cls \<Rightarrow> cls | None \<Rightarrow> None)"

text \<open>\<open>Config.dataExists\<close> and \<open>Config.getData\<close> (\<open>None\<close> is its \<open>KeyError\<close>).\<close>

definition dataExists :: "(string \<rightharpoonup> (string \<rightharpoonup> 'v)) \<Rightarrow> string \<Rightarrow> string \<Rightarrow> bool" where
  "dataExists ds module_name arg =
     (case ds module_name of Some d \<Rightarrow> d arg \<noteq> None | None \<Rightarrow> False)"

definition getData :: "(string \<rightharpoonup> (string \<rightharpoonup> 'v)) \<Rightarrow> string \<Rightarrow> string \<Rightarrow> 'v option" where
  "getData ds module_name arg = (case ds module_name of Some d \<Rightarrow> d arg | None \<Rightarrow> None)"

section \<open>Setting parameters (App._set, App.set)\<close>

text \<open>The branch of \<open>_set\<close> for one module instance (lines 346-354).\<close>

definition set_module :: "string list \<Rightarrow> string \<Rightarrow> 'v \<Rightarrow> 'v module \<Rightarrow> 'v module \<times> (exn + pyret)" where
  "set_module sdr nm v m =
     (if dynamicArgs m \<or> args m nm \<noteq> None
      then (m\<lparr>args := (args m)(nm \<mapsto> v)\<rparr>, Inr PyTrue)
      else if nm \<in> set sdr \<and> is_wireless m
      then (m\<lparr>sdrConfig := (sdrConfig m)(nm \<mapsto> v)\<rparr>, Inr PyTrue)
      else (m, Inl IncorrectParameter))"

text \<open>
  \<open>_set\<close> on a list that holds one module dictionary: the branch above, or \<open>False\<close> when
  the dictionary holds no instance (lines 343-354, 368-369).
\<close>

definition set_mdict :: "string list \<Rightarrow> string \<Rightarrow> 'v \<Rightarrow> 'v mdict \<Rightarrow> 'v mdict \<times> (exn + pyret)" where
  "set_mdict sdr nm v d =
     (case snd d of
        Some m \<Rightarrow> (case set_module sdr nm v m of (m', r) \<Rightarrow> ((fst d, Some m'), r))
      | None \<Rightarrow> (d, Inr PyFalse))"

text \<open>
  \<open>(module_name, arg_name) = name.split(".")\<close>: the unpacking raises \<open>ValueError\<close> unless
  the split has exactly two pieces.
\<close>

definition split_dotted :: "string \<Rightarrow> exn + string \<times> string" where
  "split_dotted nm =
     (case split_on CHR ''.'' nm of
        [module_name, arg_name] \<Rightarrow> Inr (module_name, arg_name)
      | _ \<Rightarrow> Inl ValueError)"

text \<open>
  The loop of lines 373-375 over module dictionaries: the first dictionary that holds an
  instance and has the name gets the value; with none, the function ends without a
  \<open>return\<close>.
\<close>

fun set_named_mdict ::
  "string list \<Rightarrow> string \<Rightarrow> string \<Rightarrow> 'v \<Rightarrow> 'v mdict list \<Rightarrow> 'v mdict list \<times> (exn + pyret)" where
  "set_named_mdict sdr module_name arg_name v [] = ([], Inr PyNone)"
| "set_named_mdict sdr module_name arg_name v (d # ds) =
     (if snd d \<noteq> None \<and> module_name = fst d
      then (case set_mdict sdr arg_name v d of (d', r) \<Rightarrow> (d' # ds, r))
      else (case set_named_mdict sdr module_name arg_name v ds of (ds', r) \<Rightarrow> (d # ds', r)))"

text \<open>
  \<open>_set(name, value, modules_list)\<close> on a list of module dictionaries, which is what the
  members of a shortcut are: this is the call \<open>self._set(parameters_name, value,
  module["shortcut"])\<close>.
\<close>

fun set_mdicts ::
  "string list \<Rightarrow> string \<Rightarrow> 'v \<Rightarrow> 'v mdict list \<Rightarrow> 'v mdict list \<times> (exn + pyret)" where
  "set_mdicts sdr nm v [] = ([], Inl NoModuleLoaded)"
| "set_mdicts sdr nm v [d] = (case set_mdict sdr nm v d of (d', r) \<Rightarrow> ([d'], r))"
| "set_mdicts sdr nm v ds =
     (if CHR ''.'' \<in> set nm
      then (case split_dotted nm of
              Inl e \<Rightarrow> (ds, Inl e)
            | Inr (module_name, arg_name) \<Rightarrow> set_named_mdict sdr module_name arg_name v ds)
      else (ds, Inl MultipleModulesLoaded))"

text \<open>
  The loop \<open>success = success and self._set(parameters_name, value, module["shortcut"])\<close>:
  \<open>and\<close> gives its right operand when \<open>success\<close> is \<open>True\<close> and skips the call otherwise; an
  exception leaves the loop.
\<close>

fun set_targets ::
  "string list \<Rightarrow> 'v \<Rightarrow> string list \<Rightarrow> pyret \<Rightarrow> 'v mdict list \<Rightarrow> 'v mdict list \<times> (exn + pyret)" where
  "set_targets sdr v [] success ms = (ms, Inr success)"
| "set_targets sdr v (parameters_name # rest) success ms =
     (if success = PyTrue
      then (case set_mdicts sdr parameters_name v ms of
              (ms', Inl e) \<Rightarrow> (ms', Inl e)
            | (ms', Inr r) \<Rightarrow> set_targets sdr v rest r ms')
      else set_targets sdr v rest success ms)"

text \<open>The mapping a shortcut slot refers to, and the write \<open>shortcut_mapping["value"] = value\<close>.\<close>

definition mapping_of :: "(string \<rightharpoonup> 'v shortcut) \<Rightarrow> string \<Rightarrow> (string \<times> 'v mapping_entry) list" where
  "mapping_of tbl ref = (case tbl ref of Some sc \<Rightarrow> sc_mapping sc | None \<Rightarrow> [])"

definition store_value ::
  "(string \<rightharpoonup> 'v shortcut) \<Rightarrow> string \<Rightarrow> string \<Rightarrow> 'v \<Rightarrow> (string \<rightharpoonup> 'v shortcut)" where
  "store_value tbl ref nm v =
     (case tbl ref of
        Some sc \<Rightarrow>
          (case map_of (sc_mapping sc) nm of
             Some e \<Rightarrow> tbl(ref \<mapsto> sc\<lparr>sc_mapping := AList.update nm (e\<lparr>mvalue := Some v\<rparr>) (sc_mapping sc)\<rparr>)
           | None \<Rightarrow> tbl)
      | None \<Rightarrow> tbl)"

text \<open>
  The branch of \<open>_set\<close> for a shortcut dictionary (lines 356-367, and again lines 377-387):
  the value goes to every target of the mapping entry, and the entry's \<open>value\<close> is written
  only when \<open>success\<close> is still \<open>True\<close> after the loop.
\<close>

definition set_shortcut ::
  "string list \<Rightarrow> string \<Rightarrow> 'v \<Rightarrow> 'v mdict list \<Rightarrow> string \<Rightarrow> (string \<rightharpoonup> 'v shortcut)
     \<Rightarrow> ('v mdict list \<times> (string \<rightharpoonup> 'v shortcut)) \<times> (exn + pyret)" where
  "set_shortcut sdr nm v members ref tbl =
     (case map_of (mapping_of tbl ref) nm of
        None \<Rightarrow> ((members, tbl), Inl IncorrectParameter)
      | Some shortcut_mapping \<Rightarrow>
          (case set_targets sdr v (parameters shortcut_mapping) PyTrue members of
             (members', Inl e) \<Rightarrow> ((members', tbl), Inl e)
           | (members', Inr success) \<Rightarrow>
               ((members', if success = PyTrue then store_value tbl ref nm v else tbl),
                Inr success)))"

text \<open>\<open>_set\<close> on a list that holds one slot (lines 343-369).\<close>

definition set_slot ::
  "string list \<Rightarrow> string \<Rightarrow> 'v \<Rightarrow> 'v slot \<Rightarrow> (string \<rightharpoonup> 'v shortcut)
     \<Rightarrow> ('v slot \<times> (string \<rightharpoonup> 'v shortcut)) \<times> (exn + pyret)" where
  "set_slot sdr nm v s tbl =
     (case s of
        ModuleSlot n mo \<Rightarrow>
          (case set_mdict sdr nm v (n, mo) of ((n', mo'), r) \<Rightarrow> ((ModuleSlot n' mo', tbl), r))
      | ShortcutSlot n members ref \<Rightarrow>
          (case set_shortcut sdr nm v members ref tbl of
             ((members', tbl'), r) \<Rightarrow> ((ShortcutSlot n members' ref, tbl'), r)))"

text \<open>
  The loop of lines 373-387: the first slot whose display name is \<open>module_name\<close> (a module
  slot counts only when it holds an instance) is set as a list of its own; when no slot
  matches, the loop ends and so does the function, without a \<open>return\<close>.
\<close>

fun slot_matches :: "string \<Rightarrow> 'v slot \<Rightarrow> bool" where
  "slot_matches module_name (ModuleSlot n mo) = (mo \<noteq> None \<and> module_name = n)"
| "slot_matches module_name (ShortcutSlot n members ref) = (module_name = n)"

fun set_named_slot ::
  "string list \<Rightarrow> string \<Rightarrow> string \<Rightarrow> 'v \<Rightarrow> 'v slot list \<Rightarrow> (string \<rightharpoonup> 'v shortcut)
     \<Rightarrow> ('v slot list \<times> (string \<rightharpoonup> 'v shortcut)) \<times> (exn + pyret)" where
  "set_named_slot sdr module_name arg_name v [] tbl = (([], tbl), Inr PyNone)"
| "set_named_slot sdr module_name arg_name v (s # rest) tbl =
     (if slot_matches module_name s
      then (case set_slot sdr arg_name v s tbl of ((s', tbl'), r) \<Rightarrow> ((s' # rest, tbl'), r))
      else (case set_named_slot sdr module_name arg_name v rest tbl of
              ((rest', tbl'), r) \<Rightarrow> ((s # rest', tbl'), r)))"

text \<open>
  \<open>App._set(name, value, modules_list)\<close> on the pipeline: the slots and the shortcut table
  after the call, and the exception raised or the value returned.
\<close>

fun priv_set ::
  "string list \<Rightarrow> string \<Rightarrow> 'v \<Rightarrow> 'v slot list \<Rightarrow> (string \<rightharpoonup> 'v shortcut)
     \<Rightarrow> ('v slot list \<times> (string \<rightharpoonup> 'v shortcut)) \<times> (exn + pyret)" where
  "priv_set sdr nm v [] tbl = (([], tbl), Inl NoModuleLoaded)"
| "priv_set sdr nm v [s] tbl =
     (case set_slot sdr nm v s tbl of ((s', tbl'), r) \<Rightarrow> (([s'], tbl'), r))"
| "priv_set sdr nm v ss tbl =
     (if CHR ''.'' \<in> set nm
      then (case split_dotted nm of
              Inl e \<Rightarrow> ((ss, tbl), Inl e)
            | Inr (module_name, arg_name) \<Rightarrow> set_named_slot sdr module_name arg_name v ss tbl)
      else ((ss, tbl), Inl MultipleModulesLoaded))"

text \<open>A module dictionary as a slot of the pipeline.\<close>

definition as_slot :: "'v mdict \<Rightarrow> 'v slot" where
  "as_slot d = ModuleSlot (fst d) (snd d)"

text \<open>
  \<open>App.set(name, value)\<close>: the exception handlers print a message; a call that returns,
  whatever the value, prints nothing.
\<close>

datatype message =
  Fail_no_module_loaded
| Fail_multiple_modules_loaded
| Fail_no_corresponding_parameter
| Error_failed_to_set exn

definition set_cmd :: "string \<Rightarrow> 'v \<Rightarrow> 'v app \<Rightarrow> 'v app \<times> message option" where
  "set_cmd nm v app =
     (case priv_set (SDR_PARAMETERS app) nm v (modules app) (loaded_shortcuts app) of
        ((ss, tbl), r) \<Rightarrow>
          (app\<lparr>modules := ss, loaded_shortcuts := tbl\<rparr>,
           (case r of
              Inl NoModuleLoaded \<Rightarrow> Some Fail_no_module_loaded
            | Inl MultipleModulesLoaded \<Rightarrow> Some Fail_multiple_modules_loaded
            | Inl IncorrectParameter \<Rightarrow> Some Fail_no_corresponding_parameter
            | Inl e \<Rightarrow> Some (Error_failed_to_set e)
            | Inr _ \<Rightarrow> None)))"

section \<open>Loading a pipeline (App.load)\<close>

text \<open>The display name: \<open>m + str(counter) if len(modules) > 1 else m\<close>.\<close>

definition display_name :: "string \<Rightarrow> nat \<Rightarrow> nat \<Rightarrow> string" where
  "display_name m counter n = (if n > 1 then m @ str_nat counter else m)"

text \<open>
  Lines 282-284: every argument of the new instance that the configuration file gives a
  value for takes that value.
\<close>

definition apply_config :: "(string \<rightharpoonup> (string \<rightharpoonup> 'v)) \<Rightarrow> string \<Rightarrow> 'v module \<Rightarrow> 'v module" where
  "apply_config ds m output =
     output\<lparr>args := (\<lambda>argument.
        if args output argument \<noteq> None \<and> dataExists ds m argument
        then getData ds m argument else args output argument)\<rparr>"

text \<open>
  Lines 298-301: for every entry of the mapping with a value, \<open>_set\<close> is called with the
  entry's own key and that value on the list that holds the member just built; what the
  call returns is dropped, what it raises leaves \<open>load\<close>.
\<close>

fun apply_defaults ::
  "string list \<Rightarrow> (string \<times> 'v mapping_entry) list \<Rightarrow> 'v mdict \<Rightarrow> exn + 'v mdict" where
  "apply_defaults sdr [] d = Inr d"
| "apply_defaults sdr ((argument, e) # rest) d =
     (case mvalue e of
        None \<Rightarrow> apply_defaults sdr rest d
      | Some v \<Rightarrow>
          (case set_mdict sdr argument v d of
             (d', Inl x) \<Rightarrow> Inl x
           | (d', Inr r) \<Rightarrow> apply_defaults sdr rest d'))"

text \<open>
  Lines 292-303: the members of a shortcut, one per piece of its \<open>modules\<close> string; \<open>n\<close>
  is the number of pieces, \<open>acc\<close> the list \<open>shortcut_modules\<close> so far.
\<close>

fun load_members ::
  "string list \<Rightarrow> (string \<rightharpoonup> 'v module option) \<Rightarrow> (string \<times> 'v mapping_entry) list \<Rightarrow> nat
     \<Rightarrow> string list \<Rightarrow> nat \<Rightarrow> 'v mdict list \<Rightarrow> exn + 'v mdict list" where
  "load_members sdr ml mp n [] shortcut_counter acc = Inr acc"
| "load_members sdr ml mp n (piece # rest) shortcut_counter acc =
     (case apply_defaults sdr mp (display_name piece shortcut_counter n, loader_load ml piece) of
        Inl x \<Rightarrow> Inl x
      | Inr d \<Rightarrow> load_members sdr ml mp n rest (shortcut_counter + 1) (acc @ [d]))"

text \<open>
  Lines 275-314, the loop over the pieces of the expression: \<open>n\<close> is their number,
  \<open>tmp\<close> the list \<open>tmp_modules\<close> so far. The loop ends with the list it built, stops at
  the first piece that is neither a module nor a shortcut, or is left by an exception.
\<close>

datatype 'v loaded = Built "'v slot list" | Unknown string | Escaped exn

fun load_loop ::
  "'v app \<Rightarrow> nat \<Rightarrow> string list \<Rightarrow> nat \<Rightarrow> 'v slot list \<Rightarrow> 'v loaded" where
  "load_loop app n [] counter tmp = Built tmp"
| "load_loop app n (m # rest) counter tmp =
     (case loader_load (modulesList app) m of
        Some output \<Rightarrow>
          load_loop app n rest (counter + 1)
            (tmp @ [ModuleSlot (display_name m counter n) (Some (apply_config (datas app) m output))])
      | None \<Rightarrow>
          (case loaded_shortcuts app m of
             Some sc \<Rightarrow>
               (let pieces = split_on CHR ''|'' (sc_modules sc) in
                case load_members (SDR_PARAMETERS app) (modulesList app) (sc_mapping sc)
                       (length pieces) pieces 1 [] of
                  Inl x \<Rightarrow> Escaped x
                | Inr members \<Rightarrow>
                    load_loop app n rest (counter + 1)
                      (tmp @ [ShortcutSlot (display_name m counter n) members m]))
           | None \<Rightarrow> Unknown m))"

text \<open>
  \<open>App.load(module_name)\<close>: the application after the call, and how the call ended:
  the pipeline was installed, a piece was unknown (the message of line 312), or an
  exception left the method.
\<close>

datatype load_result = Installed | Unknown_module string | Load_raised exn

definition pieces_of :: "string \<Rightarrow> string list" where
  "pieces_of module_name =
     (if CHR ''|'' \<in> set module_name then split_on CHR ''|'' module_name else [module_name])"

definition load :: "string \<Rightarrow> 'v app \<Rightarrow> 'v app \<times> load_result" where
  "load module_name app =
     (let ms = pieces_of module_name in
      case load_loop app (length ms) ms 1 [] of
        Built tmp \<Rightarrow> (app\<lparr>modules := tmp\<rparr>, Installed)
      | Unknown m \<Rightarrow> (app, Unknown_module m)
      | Escaped x \<Rightarrow> (app, Load_raised x))"

section \<open>Running the pipeline (App.run)\<close>

text \<open>
  What a run leaves behind for an observer: every call of \<open>execute\<close>, with the display
  name of the module dictionary and the arguments the instance held when it was called, and
  every failure message, with the name of the slot.
\<close>

datatype 'v event =
  Executed string "string \<rightharpoonup> 'v"
| Module_failed string
| Shortcut_failed string

text \<open>
  Lines 467-469 (and 478-480): every key of the carried dictionary that the instance
  declares, or any key when the instance takes undeclared arguments, overwrites the
  instance's argument.
\<close>

definition carry :: "(string \<rightharpoonup> 'v) \<Rightarrow> 'v module \<Rightarrow> 'v module" where
  "carry cargs m =
     m\<lparr>args := (\<lambda>arg. case cargs arg of
         Some x \<Rightarrow> if args m arg \<noteq> None \<or> dynamicArgs m then Some x else args m arg
       | None \<Rightarrow> args m arg)\<rparr>"

text \<open>
  Lines 477-486, the loop over the members of a shortcut slot named \<open>sname\<close>: a member
  without an instance raises \<open>AttributeError\<close>; a member that fails prints the message and
  ends this loop (\<open>break\<close>). The result holds the members, the carried dictionary and the
  events, and the exception if one left the loop.
\<close>

fun run_members ::
  "string \<Rightarrow> (string \<rightharpoonup> 'v) \<Rightarrow> 'v mdict list
     \<Rightarrow> ('v mdict list \<times> (string \<rightharpoonup> 'v) \<times> 'v event list) \<times> exn option" where
  "run_members sname cargs [] = (([], cargs, []), None)"
| "run_members sname cargs ((n, None) # rest) =
     (((n, None) # rest, cargs, []), Some AttributeError)"
| "run_members sname cargs ((n, Some m) # rest) =
     (case execute (carry cargs m) of
        (m', Inl e) \<Rightarrow>
          (((n, Some m') # rest, cargs, [Executed n (args (carry cargs m))]), Some e)
      | (m', Inr (success, output)) \<Rightarrow>
          if \<not> success
          then (((n, Some m') # rest, cargs,
                 [Executed n (args (carry cargs m)), Shortcut_failed sname]), None)
          else (case run_members sname (cargs ++ output) rest of
                  ((rest', cargs', ev), x) \<Rightarrow>
                    (((n, Some m') # rest', cargs', Executed n (args (carry cargs m)) # ev), x)))"

text \<open>
  Lines 465-486, the loop over the slots. A module slot that fails prints the message
  and ends the loop (\<open>break\<close>); after a shortcut slot the loop goes on with the next slot.
\<close>

fun run_slots ::
  "(string \<rightharpoonup> 'v) \<Rightarrow> 'v slot list \<Rightarrow> ('v slot list \<times> 'v event list) \<times> exn option" where
  "run_slots cargs [] = (([], []), None)"
| "run_slots cargs (ModuleSlot n None # rest) =
     (case run_slots cargs rest of ((rest', ev), x) \<Rightarrow> ((ModuleSlot n None # rest', ev), x))"
| "run_slots cargs (ModuleSlot n (Some m) # rest) =
     (case execute (carry cargs m) of
        (m', Inl e) \<Rightarrow>
          ((ModuleSlot n (Some m') # rest, [Executed n (args (carry cargs m))]), Some e)
      | (m', Inr (success, output)) \<Rightarrow>
          if \<not> success
          then ((ModuleSlot n (Some m') # rest,
                 [Executed n (args (carry cargs m)), Module_failed n]), None)
          else (case run_slots (cargs ++ output) rest of
                  ((rest', ev), x) \<Rightarrow>
                    ((ModuleSlot n (Some m') # rest', Executed n (args (carry cargs m)) # ev), x)))"
| "run_slots cargs (ShortcutSlot n members ref # rest) =
     (case run_members n cargs members of
        ((members', cargs', ev), Some e) \<Rightarrow> ((ShortcutSlot n members' ref # rest, ev), Some e)
      | ((members', cargs', ev), None) \<Rightarrow>
          (case run_slots cargs' rest of
             ((rest', ev'), x) \<Rightarrow> ((ShortcutSlot n members' ref # rest', ev @ ev'), x)))"

text \<open>\<open>App.run()\<close>: the application and the events, and the exception if one left the method.\<close>

definition run :: "'v app \<Rightarrow> ('v app \<times> 'v event list) \<times> exn option" where
  "run app =
     (case run_slots Map.empty (modules app) of
        ((ss, ev), x) \<Rightarrow> ((app\<lparr>modules := ss\<rparr>, ev), x))"

section \<open>An example application\<close>

text \<open>
  Four modules: \<open>x\<close> and \<open>y\<close> succeed and give an output \<open>K\<close>, \<open>z\<close> reports failure with
  an empty output, \<open>w\<close> reports failure with an output \<open>K\<close>.
  Four shortcuts: \<open>s\<close> expands to \<open>z\<close>; \<open>t\<close>, \<open>d\<close> and \<open>e\<close> expand to \<open>x\<close>: \<open>t\<close> has two
  parameters of two targets each, \<open>d\<close> a parameter \<open>P\<close> for the argument \<open>A\<close> with the default
  \<open>1\<close>, \<open>e\<close> a parameter \<open>A\<close> for the argument \<open>K\<close> with the default \<open>1\<close>.
\<close>

definition unit_x :: "string module" where
  "unit_x = \<lparr>args = [''A'' \<mapsto> ''0'', ''K'' \<mapsto> ''user''], dynamicArgs = False,
     sdrConfig = Map.empty, is_wireless = False,
     behaviour = (\<lambda>a s. Returns True [''K'' \<mapsto> ''fromx''] a)\<rparr>"

definition unit_y :: "string module" where
  "unit_y = \<lparr>args = [''K'' \<mapsto> ''user''], dynamicArgs = False,
     sdrConfig = Map.empty, is_wireless = False,
     behaviour = (\<lambda>a s. Returns True [''K'' \<mapsto> ''fromy''] a)\<rparr>"

definition unit_z :: "string module" where
  "unit_z = \<lparr>args = Map.empty, dynamicArgs = False,
     sdrConfig = Map.empty, is_wireless = False,
     behaviour = (\<lambda>a s. Returns False Map.empty a)\<rparr>"

definition unit_w :: "string module" where
  "unit_w = \<lparr>args = Map.empty, dynamicArgs = False,
     sdrConfig = Map.empty, is_wireless = False,
     behaviour = (\<lambda>a s. Returns False [''K'' \<mapsto> ''fromw''] a)\<rparr>"

definition demo_app :: "string app" where
  "demo_app = \<lparr>modulesList = [''x'' \<mapsto> Some unit_x, ''y'' \<mapsto> Some unit_y, ''z'' \<mapsto> Some unit_z,
       ''w'' \<mapsto> Some unit_w],
     datas = Map.empty,
     loaded_shortcuts =
       [''s'' \<mapsto> \<lparr>sc_modules = ''z'', sc_description = [], sc_mapping = []\<rparr>,
        ''t'' \<mapsto> \<lparr>sc_modules = ''x'', sc_description = [],
                 sc_mapping = [(''P'', \<lparr>parameters = [''A'', ''B''], mvalue = None\<rparr>),
                               (''Q'', \<lparr>parameters = [''A'', ''K''], mvalue = None\<rparr>)]\<rparr>,
        ''d'' \<mapsto> \<lparr>sc_modules = ''x'', sc_description = [],
                 sc_mapping = [(''P'', \<lparr>parameters = [''A''], mvalue = Some ''1''\<rparr>)]\<rparr>,
        ''e'' \<mapsto> \<lparr>sc_modules = ''x'', sc_description = [],
                 sc_mapping = [(''A'', \<lparr>parameters = [''K''], mvalue = Some ''1''\<rparr>)]\<rparr>],
     modules = [], SDR_PARAMETERS = []\<rparr>"

section \<open>Reading a target back\<close>

text \<open>
  The value held by the argument that a name addresses in a list of module dictionaries,
  found the way \<open>_set\<close> finds the place it writes: in the single instance of a list of
  one; through \<open>module_name.arg_name\<close> in a longer list; in \<open>args\<close> when the instance
  declares the name or takes undeclared arguments, else in \<open>sdrConfig\<close> for a reserved
  key of a wireless instance.
\<close>

definition get_module :: "string list \<Rightarrow> string \<Rightarrow> 'v module \<Rightarrow> 'v option" where
  "get_module sdr nm m =
     (if dynamicArgs m \<or> args m nm \<noteq> None then args m nm
      else if nm \<in> set sdr \<and> is_wireless m then sdrConfig m nm
      else None)"

definition get_mdict :: "string list \<Rightarrow> string \<Rightarrow> 'v mdict \<Rightarrow> 'v option" where
  "get_mdict sdr nm d = (case snd d of Some m \<Rightarrow> get_module sdr nm m | None \<Rightarrow> None)"

fun get_named_mdict :: "string list \<Rightarrow> string \<Rightarrow> string \<Rightarrow> 'v mdict list \<Rightarrow> 'v option" where
  "get_named_mdict sdr module_name arg_name [] = None"
| "get_named_mdict sdr module_name arg_name (d # ds) =
     (if snd d \<noteq> None \<and> module_name = fst d then get_mdict sdr arg_name d
      else get_named_mdict sdr module_name arg_name ds)"

fun get_mdicts :: "string list \<Rightarrow> string \<Rightarrow> 'v mdict list \<Rightarrow> 'v option" where
  "get_mdicts sdr nm [] = None"
| "get_mdicts sdr nm [d] = get_mdict sdr nm d"
| "get_mdicts sdr nm ds =
     (case split_dotted nm of
        Inl e \<Rightarrow> None
      | Inr (module_name, arg_name) \<Rightarrow> get_named_mdict sdr module_name arg_name ds)"

section \<open>Properties of the task manager\<close>

subsection \<open>The names \<open>addTask\<close> tries\<close>

lemma suffixed_inj: "suffixed b j = suffixed b k \<Longrightarrow> j = k"
  by (auto simp: suffixed_def str_nat_inj split: if_splits)

lemma unique_name_fresh: "unique_name b tn c ks \<notin> set ks"
  by (induction b tn c ks rule: unique_name.induct) (subst unique_name.simps, simp)

lemma unique_name_run:
  "\<lbrakk>\<forall>i. j \<le> i \<and> i < n \<longrightarrow> suffixed b i \<in> set ks; suffixed b n \<notin> set ks; j \<le> n\<rbrakk>
     \<Longrightarrow> unique_name b (suffixed b j) (Suc j) ks = suffixed b n"
proof (induction "n - j" arbitrary: j)
  case 0
  then have "j = n" by simp
  with 0 show ?case by (subst unique_name.simps) simp
next
  case (Suc d)
  then have lt: "j < n" by simp
  with Suc.prems have inks: "suffixed b j \<in> set ks" by simp
  have "unique_name b (suffixed b (Suc j)) (Suc (Suc j)) ks = suffixed b n"
    using Suc.hyps Suc.prems lt by (intro Suc.hyps(1)) auto
  with inks show ?case
    by (subst unique_name.simps) (simp add: suffixed_def)
qed

lemma unique_name_least:
  "\<exists>k. unique_name b b 1 ks = suffixed b k \<and> suffixed b k \<notin> set ks \<and> (\<forall>j<k. suffixed b j \<in> set ks)"
proof -
  have "\<exists>k. suffixed b k \<notin> set ks"
  proof (rule ccontr)
    assume "\<not> ?thesis"
    then have "range (suffixed b) \<subseteq> set ks" by auto
    then have "finite (range (suffixed b))" by (rule finite_subset) simp
    moreover have "inj (suffixed b)" by (auto simp: inj_on_def dest: suffixed_inj)
    ultimately show False using finite_imageD infinite_UNIV_nat by blast
  qed
  then obtain k where k: "suffixed b k \<notin> set ks" "\<forall>j<k. suffixed b j \<in> set ks"
    using exists_least_iff [of "\<lambda>k. suffixed b k \<notin> set ks"] by auto
  then have "unique_name b (suffixed b 0) (Suc 0) ks = suffixed b k"
    by (intro unique_name_run) auto
  moreover have "suffixed b 0 = b" by (simp add: suffixed_def)
  ultimately have "unique_name b b 1 ks = suffixed b k" by simp
  with k show ?thesis by blast
qed

subsection \<open>The registry stays a dictionary of tasks\<close>

text \<open>
  \<open>tm_wf\<close> holds for a new manager and is kept by every operation and by the end of a
  task, so it holds for every manager the program can reach.
\<close>

lemma tm_wf_init: "tm_wf init_taskManager"
  by (simp add: tm_wf_def init_taskManager_def)

lemma list_all_update:
  "list_all P al \<Longrightarrow> P (k, v) \<Longrightarrow> list_all P (AList.update k v al)"
  by (induction al) auto

lemma list_all_delete: "list_all P al \<Longrightarrow> list_all P (AList.delete k al)"
  by (induction al) auto

lemma tm_wf_update:
  "tm_wf tm \<Longrightarrow> taskName t = k \<Longrightarrow> tm_wf (tm\<lparr>tasks := AList.update k t (tasks tm)\<rparr>)"
  by (simp add: tm_wf_def AList.distinct_update list_all_update)

lemma tm_wf_delete: "tm_wf tm \<Longrightarrow> tm_wf (tm\<lparr>tasks := AList.delete k (tasks tm)\<rparr>)"
  by (simp add: tm_wf_def AList.distinct_delete list_all_delete)

lemma map_of_taskName:
  "tm_wf tm \<Longrightarrow> map_of (tasks tm) k = Some t \<Longrightarrow> taskName t = k"
proof -
  assume wf: "tm_wf tm" and m: "map_of (tasks tm) k = Some t"
  from m have "(k, t) \<in> set (tasks tm)" by (rule map_of_SomeD)
  with wf show ?thesis by (auto simp: tm_wf_def list_all_iff)
qed

lemma tm_wf_addTask: "tm_wf tm \<Longrightarrow> tm_wf (snd (addTask pn f nm a k tm))"
  by (simp add: addTask_def Let_def tm_wf_update Task_def)

lemma tm_wf_startTask: "tm_wf tm \<Longrightarrow> tm_wf (snd (startTask p d n tm))"
  by (auto simp: startTask_def task_start_def tm_wf_update map_of_taskName split: option.splits)

lemma stopTask_tasks:
  "snd (stopTask n tm) = tm \<or> snd (stopTask n tm) = tm\<lparr>tasks := AList.delete n (tasks tm)\<rparr>"
  by (simp add: stopTask_def AList.delete_update_same split: option.splits)

lemma tm_wf_stopTask: "tm_wf tm \<Longrightarrow> tm_wf (snd (stopTask n tm))"
  using stopTask_tasks [of n tm] by (auto simp: tm_wf_delete)

lemma tm_wf_restartTask: "tm_wf tm \<Longrightarrow> tm_wf (snd (restartTask pn p d n tm))"
  by (auto simp: restartTask_def Let_def task_start_def Task_def tm_wf_update tm_wf_stopTask
      split: option.splits)

lemma tm_wf_task_ended: "tm_wf tm \<Longrightarrow> tm_wf (task_ended n tm)"
  by (auto simp: task_ended_def tm_wf_update map_of_taskName split: option.splits)

subsection \<open>The loop of \<open>stopAllTasks\<close>\<close>

text \<open>
  One iteration on a key of the dictionary. The entry is deleted, except when the task
  was running at the first read and its process wrote \<open>ended\<close> before the second:
  then \<open>stopTask\<close> returns \<open>False\<close> and the entry stays, in state \<open>ended\<close>.
\<close>

lemma stopAll_loop_deletes:
  assumes t: "map_of (tasks tm) k = Some t"
    and no_race: "state t = ''running'' \<longrightarrow> sched k \<noteq> Ends_between_checks"
  shows "stopAll_loop sched (k # ks) tm
           = stopAll_loop sched ks (tm\<lparr>tasks := AList.delete k (tasks tm)\<rparr>)"
proof (cases "state t = ''running''")
  case False
  with t show ?thesis by (simp add: task_ended_def)
next
  case True
  with no_race have nr: "sched k \<noteq> Ends_between_checks" by simp
  show ?thesis
  proof (cases "sched k = Ends_before_check")
    case True
    with t \<open>state t = ''running''\<close> show ?thesis
      by (simp add: task_ended_def AList.update_conv' AList.delete_update_same)
  next
    case False
    with nr t \<open>state t = ''running''\<close> show ?thesis
      by (simp add: stopTask_def AList.delete_update_same)
  qed
qed

lemma stopAll_loop_keeps:
  assumes t: "map_of (tasks tm) k = Some t"
    and race: "state t = ''running''" "sched k = Ends_between_checks"
  shows "stopAll_loop sched (k # ks) tm
           = stopAll_loop sched ks
               (tm\<lparr>tasks := AList.update k (t\<lparr>state := ''ended''\<rparr>) (tasks tm)\<rparr>)"
  using t race by (simp add: task_ended_def stopTask_def AList.update_conv')

lemma task_state_delete:
  "task_state n (tm\<lparr>tasks := AList.delete k (tasks tm)\<rparr>)
     = (if n = k then None else task_state n tm)"
  by (simp add: task_state_def AList.delete_conv')

lemma task_state_update:
  "task_state n (tm\<lparr>tasks := AList.update k t (tasks tm)\<rparr>)
     = (if n = k then Some (state t) else task_state n tm)"
  by (simp add: task_state_def AList.update_conv')

lemma keys_delete:
  "fst ` set (AList.delete k al) = fst ` set al - {k}"
  by (induction al) auto

lemma keys_update:
  "fst ` set (AList.update k v al) = insert k (fst ` set al)"
  by (induction al) auto



text \<open>
  The other direction: the loop returns on every dictionary, it touches no key outside
  its list, and an entry whose process wrote \<open>ended\<close> between the two reads is still
  there when the loop has ended.
\<close>

lemma stopAll_loop_other:
  "\<lbrakk>set ks \<subseteq> fst ` set (tasks tm); distinct ks; n \<notin> set ks\<rbrakk>
     \<Longrightarrow> \<exists>tm'. stopAll_loop sched ks tm = Inr tm' \<and> task_state n tm' = task_state n tm"
proof (induction ks arbitrary: tm)
  case Nil
  then show ?case by simp
next
  case (Cons k ks)
  from Cons.prems obtain t where t: "map_of (tasks tm) k = Some t"
    by (cases "map_of (tasks tm) k") (auto simp: map_of_eq_None_iff)
  from Cons.prems have nk: "n \<noteq> k" and nks: "n \<notin> set ks" and d: "distinct ks" and kks: "k \<notin> set ks"
    by auto
  show ?case
  proof (cases "state t = ''running'' \<and> sched k = Ends_between_checks")
    case True
    let ?tm = "tm\<lparr>tasks := AList.update k (t\<lparr>state := ''ended''\<rparr>) (tasks tm)\<rparr>"
    from True have "state t = ''running''" "sched k = Ends_between_checks" by simp_all
    with t have step: "stopAll_loop sched (k # ks) tm = stopAll_loop sched ks ?tm"
      by (rule stopAll_loop_keeps)
    have sub: "set ks \<subseteq> fst ` set (tasks ?tm)"
      using Cons.prems(1) by (auto simp: keys_update)
    from Cons.IH [OF sub d nks] step nk show ?thesis
      by (auto simp: task_state_update)
  next
    case False
    let ?tm = "tm\<lparr>tasks := AList.delete k (tasks tm)\<rparr>"
    from False have "state t = ''running'' \<longrightarrow> sched k \<noteq> Ends_between_checks" by simp
    with t have step: "stopAll_loop sched (k # ks) tm = stopAll_loop sched ks ?tm"
      by (rule stopAll_loop_deletes)
    have sub: "set ks \<subseteq> fst ` set (tasks ?tm)"
      using Cons.prems(1) kks by (auto simp: keys_delete)
    from Cons.IH [OF sub d nks] step nk show ?thesis
      by (auto simp: task_state_delete)
  qed
qed

lemma stopAll_loop_race:
  "\<lbrakk>set ks \<subseteq> fst ` set (tasks tm); distinct ks; n \<in> set ks;
    task_state n tm = Some ''running''; sched n = Ends_between_checks\<rbrakk>
     \<Longrightarrow> \<exists>tm'. stopAll_loop sched ks tm = Inr tm' \<and> task_state n tm' = Some ''ended''"
proof (induction ks arbitrary: tm)
  case Nil
  then show ?case by simp
next
  case (Cons k ks)
  from Cons.prems obtain t where t: "map_of (tasks tm) k = Some t"
    by (cases "map_of (tasks tm) k") (auto simp: map_of_eq_None_iff)
  from Cons.prems have d: "distinct ks" and kks: "k \<notin> set ks" by auto
  show ?case
  proof (cases "state t = ''running'' \<and> sched k = Ends_between_checks")
    case True
    let ?tm = "tm\<lparr>tasks := AList.update k (t\<lparr>state := ''ended''\<rparr>) (tasks tm)\<rparr>"
    from True have "state t = ''running''" "sched k = Ends_between_checks" by simp_all
    with t have step: "stopAll_loop sched (k # ks) tm = stopAll_loop sched ks ?tm"
      by (rule stopAll_loop_keeps)
    have sub: "set ks \<subseteq> fst ` set (tasks ?tm)"
      using Cons.prems(1) by (auto simp: keys_update)
    show ?thesis
    proof (cases "n = k")
      case True
      with kks have "n \<notin> set ks" by simp
      from stopAll_loop_other [OF sub d this] step True show ?thesis
        by (auto simp: task_state_update)
    next
      case False
      with Cons.prems have "n \<in> set ks" "task_state n ?tm = Some ''running''"
        by (auto simp: task_state_update)
      from Cons.IH [OF sub d this Cons.prems(5)] step show ?thesis by simp
    qed
  next
    case False
    let ?tm = "tm\<lparr>tasks := AList.delete k (tasks tm)\<rparr>"
    from False have nr: "state t = ''running'' \<longrightarrow> sched k \<noteq> Ends_between_checks" by simp
    with t have step: "stopAll_loop sched (k # ks) tm = stopAll_loop sched ks ?tm"
      by (rule stopAll_loop_deletes)
    have sub: "set ks \<subseteq> fst ` set (tasks ?tm)"
      using Cons.prems(1) kks by (auto simp: keys_delete)
    from nr t Cons.prems(4,5) have "n \<noteq> k" by (auto simp: task_state_def)
    with Cons.prems have "n \<in> set ks" "task_state n ?tm = Some ''running''"
      by (auto simp: task_state_delete)
    from Cons.IH [OF sub d this Cons.prems(5)] step show ?thesis by simp
  qed
qed

lemma stopAllTasks_race:
  assumes "tm_wf tm" "task_state n tm = Some ''running''" "sched n = Ends_between_checks"
  shows "\<exists>tm'. stopAllTasks sched tm = Inr tm' \<and> task_state n tm' = Some ''ended''"
proof -
  from assms(1) have d: "distinct (map fst (tasks tm))" by (simp add: tm_wf_def)
  have s: "set (map fst (tasks tm)) \<subseteq> fst ` set (tasks tm)" by simp
  from assms(2) have "map_of (tasks tm) n \<noteq> None" by (auto simp: task_state_def)
  then have "n \<in> set (map fst (tasks tm))" by (simp add: map_of_eq_None_iff)
  from stopAll_loop_race [where sched = sched, OF s d this assms(2,3)] show ?thesis
    by (simp add: stopAllTasks_def)
qed


subsection \<open>Adding tasks\<close>

lemma unique_name_fresh_keys: "unique_name b tn c (map fst al) \<notin> fst ` set al"
  using unique_name_fresh [of b tn c "map fst al"] by simp

lemma addTask_least:
  assumes "nm \<noteq> []"
  shows "\<exists>k. fst (addTask pn f nm a kw tm) = suffixed nm k
           \<and> (\<forall>j<k. has_task (suffixed nm j) tm) \<and> \<not> has_task (suffixed nm k) tm
           \<and> task_state (suffixed nm k) (snd (addTask pn f nm a kw tm)) = Some ''stopped''"
proof -
  from unique_name_least [of nm "map fst (tasks tm)"] obtain k where
    k: "unique_name nm nm 1 (map fst (tasks tm)) = suffixed nm k"
       "suffixed nm k \<notin> set (map fst (tasks tm))"
       "\<forall>j<k. suffixed nm j \<in> set (map fst (tasks tm))" by blast
  have "task_state (suffixed nm k) (snd (addTask pn f nm a kw tm)) = Some ''stopped''"
    using assms k(1) by (simp add: addTask_def Let_def task_state_def AList.update_conv' Task_def)
  with assms k show ?thesis
    by (intro exI [of _ k]) (simp add: addTask_def Let_def has_task_def)
qed

lemma addTask_keys:
  "map fst (tasks (snd (addTask pn f nm a kw tm))) = map fst (tasks tm) @ [fst (addTask pn f nm a kw tm)]"
  by (simp add: addTask_def Let_def AList.update_keys unique_name_fresh_keys)

lemma addTask_other:
  "n \<noteq> fst (addTask pn f nm a kw tm)
     \<Longrightarrow> task_state n (snd (addTask pn f nm a kw tm)) = task_state n tm"
  by (simp add: addTask_def Let_def task_state_def AList.update_conv')

lemma addTasks_free:
  assumes "nm \<noteq> []"
  shows "\<lbrakk>\<forall>k\<ge>c. \<not> has_task (suffixed nm k) tm; \<forall>k<c. has_task (suffixed nm k) tm\<rbrakk>
     \<Longrightarrow> fst (addTasks calls nm tm) = map (suffixed nm) [c..<c + length calls]
       \<and> (\<forall>n\<in>set (fst (addTasks calls nm tm)).
             task_state n (snd (addTasks calls nm tm)) = Some ''stopped'')
       \<and> (\<forall>n. n \<notin> set (fst (addTasks calls nm tm))
             \<longrightarrow> task_state n (snd (addTasks calls nm tm)) = task_state n tm)"
proof (induction calls arbitrary: c tm)
  case Nil
  then show ?case by simp
next
  case (Cons call calls)
  obtain pn f a kw where call: "call = (pn, f, a, kw)" by (cases call) auto
  let ?r = "addTask pn f nm a kw tm"
  have run: "unique_name nm (suffixed nm 0) (Suc 0) (map fst (tasks tm)) = suffixed nm c"
    using Cons.prems by (intro unique_name_run) (auto simp: has_task_def)
  then have fst_r: "fst ?r = suffixed nm c"
    using assms by (simp add: addTask_def Let_def suffixed_def)
  have st_r: "task_state (suffixed nm c) (snd ?r) = Some ''stopped''"
    using assms fst_r
    by (simp add: addTask_def Let_def task_state_def AList.update_conv' Task_def)
  have keys: "\<And>n. has_task n (snd ?r) = (has_task n tm \<or> n = suffixed nm c)"
    using addTask_keys [of pn f nm a kw tm] fst_r by (auto simp: has_task_def)
  have A: "\<forall>k\<ge>Suc c. \<not> has_task (suffixed nm k) (snd ?r)"
    using Cons.prems keys by (auto dest: suffixed_inj)
  have B: "\<forall>k<Suc c. has_task (suffixed nm k) (snd ?r)"
    using Cons.prems keys by (auto simp: less_Suc_eq)
  note IH = Cons.IH [OF A B]
  obtain ns tm'' where rest: "addTasks calls nm (snd ?r) = (ns, tm'')"
    by (cases "addTasks calls nm (snd ?r)") auto
  with IH have ns: "ns = map (suffixed nm) [Suc c..<Suc c + length calls]"
    and stopped: "\<forall>n\<in>set ns. task_state n tm'' = Some ''stopped''"
    and other: "\<forall>n. n \<notin> set ns \<longrightarrow> task_state n tm'' = task_state n (snd ?r)"
    by auto
  have res: "addTasks (call # calls) nm tm = (suffixed nm c # ns, tm'')"
    using call rest fst_r by (cases ?r) (auto)
  have "suffixed nm c \<notin> set ns"
    using ns by (auto dest: suffixed_inj)
  with other st_r have "task_state (suffixed nm c) tm'' = Some ''stopped''" by simp
  with stopped have st_all: "\<forall>n\<in>set (suffixed nm c # ns). task_state n tm'' = Some ''stopped''"
    by simp
  have oth: "\<forall>n. n \<notin> set (suffixed nm c # ns) \<longrightarrow> task_state n tm'' = task_state n tm"
    using other addTask_other [of _ pn f nm a kw tm] fst_r by auto
  have names_eq: "suffixed nm c # ns = map (suffixed nm) [c..<c + length (call # calls)]"
    using ns by (simp add: upt_conv_Cons del: upt_Suc)
  show ?case unfolding res fst_conv snd_conv
    using names_eq st_all oth by (intro conjI) assumption+
qed

text \<open>
  Claim C7. \<open>addTask\<close> with a requested name returns the first of \<open>name\<close>,
  \<open>name.1\<close>, \<open>name.2\<close>, ... that is not yet a key of the registry, and stores a task in
  state \<open>stopped\<close> under it. From a registry that holds none of these names (a new
  manager, for one), successive calls with the same name return \<open>name\<close>, \<open>name.1\<close>,
  \<open>name.2\<close>, ... in this order, and every returned name is mapped to a stopped task
  after the last call.
\<close>

theorem addTask_collision_names:
  assumes "nm \<noteq> []"
  shows "(\<exists>k. fst (addTask pn f nm a kw tm) = suffixed nm k
            \<and> (\<forall>j<k. has_task (suffixed nm j) tm) \<and> \<not> has_task (suffixed nm k) tm
            \<and> task_state (suffixed nm k) (snd (addTask pn f nm a kw tm)) = Some ''stopped'')
       \<and> ((\<forall>k. \<not> has_task (suffixed nm k) tm) \<longrightarrow>
            fst (addTasks calls nm tm) = map (suffixed nm) [0..<length calls]
            \<and> (\<forall>n\<in>set (fst (addTasks calls nm tm)).
                  task_state n (snd (addTasks calls nm tm)) = Some ''stopped''))"
proof (intro conjI impI)
  show "\<exists>k. fst (addTask pn f nm a kw tm) = suffixed nm k
            \<and> (\<forall>j<k. has_task (suffixed nm j) tm) \<and> \<not> has_task (suffixed nm k) tm
            \<and> task_state (suffixed nm k) (snd (addTask pn f nm a kw tm)) = Some ''stopped''"
    using assms by (rule addTask_least)
next
  assume free: "\<forall>k. \<not> has_task (suffixed nm k) tm"
  then have "\<forall>k\<ge>0. \<not> has_task (suffixed nm k) tm" "\<forall>k<0. has_task (suffixed nm k) tm"
    by auto
  from addTasks_free [OF assms this, of calls]
  show "fst (addTasks calls nm tm) = map (suffixed nm) [0..<length calls]"
    and "\<forall>n\<in>set (fst (addTasks calls nm tm)).
                  task_state n (snd (addTasks calls nm tm)) = Some ''stopped''"
    by auto
qed

text \<open>
  Three calls with the name \<open>probe\<close> on a new manager.
\<close>

theorem addTask_collision_names_witness:
  "''probe'' \<noteq> [] \<and> (\<forall>k. \<not> has_task (suffixed ''probe'' k) (init_taskManager :: nat taskManager))
   \<and> fst (addTasks [(''Task-1'', Callable ''f'', [1::nat], []), (''Task-2'', Callable ''f'', [], []),
                     (''Task-3'', Callable ''g'', [2], [])] ''probe'' init_taskManager)
       = [''probe'', ''probe.1'', ''probe.2'']
   \<and> task_state ''probe.2''
        (snd (addTasks [(''Task-1'', Callable ''f'', [1::nat], []), (''Task-2'', Callable ''f'', [], []),
                     (''Task-3'', Callable ''g'', [2], [])] ''probe'' init_taskManager))
       = Some ''stopped''"
proof -
  let ?calls = "[(''Task-1'', Callable ''f'', [1::nat], []), (''Task-2'', Callable ''f'', [], []),
                     (''Task-3'', Callable ''g'', [2], [])]"
  let ?tm = "init_taskManager :: nat taskManager"
  have ne: "''probe'' \<noteq> []" by simp
  have free: "\<forall>k. \<not> has_task (suffixed ''probe'' k) ?tm"
    by (simp add: has_task_def init_taskManager_def)
  have names: "map (suffixed ''probe'') [0..<length ?calls] = [''probe'', ''probe.1'', ''probe.2'']"
    by (simp add: suffixed_def str_nat.simps digit_char_def upt_rec)
  note inst = addTask_collision_names [OF ne, of "''Task-1''" "Callable ''f''" "[]" "[]" ?tm ?calls,
      THEN conjunct2, THEN mp, OF free]
  show ?thesis using inst names ne free by simp
qed

subsection \<open>Stopping one task\<close>

lemma getTasksList_names:
  "set (map (\<lambda>row. row ! 1) (getTasksList pattern tm)) \<subseteq> taskName ` snd ` set (tasks tm)"
  by (auto simp: getTasksList_def toList_def)

lemma taskName_in_keys:
  "tm_wf tm \<Longrightarrow> taskName ` snd ` set (tasks tm) \<subseteq> fst ` set (tasks tm)"
proof
  fix x assume "x \<in> taskName ` snd ` set (tasks tm)"
  then obtain k t where kt: "(k, t) \<in> set (tasks tm)" "x = taskName t" by auto
  moreover assume "tm_wf tm"
  ultimately have "x = k" by (auto simp: tm_wf_def list_all_iff)
  with kt have "(x, t) \<in> set (tasks tm)" by simp
  then show "x \<in> fst ` set (tasks tm)" by force
qed

text \<open>
  Claim C8. \<open>stopTask(name)\<close> returns \<open>False\<close> and leaves the manager as it is unless a
  task of that name exists and is running. When it is, \<open>stopTask\<close> returns \<open>True\<close>, the
  entry is deleted (the other entries stay), and no row of any later listing, whatever
  the pattern, carries the name.
\<close>

theorem stopTask_removes:
  "(task_state n tm \<noteq> Some ''running'' \<longrightarrow> stopTask n tm = (False, tm))
   \<and> (tm_wf tm \<and> task_state n tm = Some ''running'' \<longrightarrow>
        fst (stopTask n tm)
        \<and> tasks (snd (stopTask n tm)) = AList.delete n (tasks tm)
        \<and> \<not> has_task n (snd (stopTask n tm))
        \<and> (\<forall>pattern. \<forall>row\<in>set (getTasksList pattern (snd (stopTask n tm))). row ! 1 \<noteq> n))"
proof (intro conjI impI)
  assume "task_state n tm \<noteq> Some ''running''"
  then show "stopTask n tm = (False, tm)"
    by (auto simp: stopTask_def task_state_def split: option.splits)
next
  assume a: "tm_wf tm \<and> task_state n tm = Some ''running''"
  then obtain t where t: "map_of (tasks tm) n = Some t" "state t = ''running''"
    by (auto simp: task_state_def)
  then show "fst (stopTask n tm)" by (simp add: stopTask_def)
  from t show del: "tasks (snd (stopTask n tm)) = AList.delete n (tasks tm)"
    by (simp add: stopTask_def AList.delete_update_same)
  then show gone: "\<not> has_task n (snd (stopTask n tm))"
    using AList.delete_notin_dom [of n "tasks tm"] by (simp add: has_task_def)
  from a have "tm_wf (snd (stopTask n tm))" by (simp add: tm_wf_stopTask)
  from taskName_in_keys [OF this] gone
  have "n \<notin> taskName ` snd ` set (tasks (snd (stopTask n tm)))"
    by (auto simp: has_task_def)
  then have notin: "n \<notin> taskName ` snd ` set (tasks (snd (stopTask n tm)))" .
  show "\<forall>pattern. \<forall>row\<in>set (getTasksList pattern (snd (stopTask n tm))). row ! 1 \<noteq> n"
  proof (intro allI ballI)
    fix pattern row
    assume "row \<in> set (getTasksList pattern (snd (stopTask n tm)))"
    then have "row ! 1 \<in> set (map (\<lambda>row. row ! 1) (getTasksList pattern (snd (stopTask n tm))))"
      by simp
    with getTasksList_names [of pattern "snd (stopTask n tm)"]
    have "row ! 1 \<in> taskName ` snd ` set (tasks (snd (stopTask n tm)))" by blast
    with notin show "row ! 1 \<noteq> n" by auto
  qed
qed

lemma example_tasks_eq:
  "example_tasks =
     \<lparr>tasks =
       [(''sniff'', \<lparr>func = Callable ''sniff'', taskName = ''sniff'', targs = [], kwargs = [],
           state = ''running'', pid = Some 42, outputFilename = ''/tmp/sniff-42.out'',
           proc_name = ''Task-1''\<rparr>),
        (''scan'', \<lparr>func = Callable ''scan'', taskName = ''scan'', targs = [], kwargs = [],
           state = ''ended'', pid = Some 43, outputFilename = ''/tmp/scan-43.out'',
           proc_name = ''Task-2''\<rparr>),
        (''idle'', \<lparr>func = Callable ''idle'', taskName = ''idle'', targs = [], kwargs = [],
           state = ''stopped'', pid = None, outputFilename = [], proc_name = ''Task-3''\<rparr>)]\<rparr>"
proof -
  let ?sniff = "\<lparr>func = Callable ''sniff'', taskName = ''sniff'', targs = [] :: nat list,
    kwargs = [], state = ''stopped'', pid = None, outputFilename = [], proc_name = ''Task-1''\<rparr>"
  let ?scan = "\<lparr>func = Callable ''scan'', taskName = ''scan'', targs = [] :: nat list,
    kwargs = [], state = ''stopped'', pid = None, outputFilename = [], proc_name = ''Task-2''\<rparr>"
  let ?idle = "\<lparr>func = Callable ''idle'', taskName = ''idle'', targs = [] :: nat list,
    kwargs = [], state = ''stopped'', pid = None, outputFilename = [], proc_name = ''Task-3''\<rparr>"
  let ?sniff' = "?sniff\<lparr>state := ''running'', pid := Some 42, outputFilename := ''/tmp/sniff-42.out''\<rparr>"
  let ?scan' = "?scan\<lparr>state := ''running'', pid := Some 43, outputFilename := ''/tmp/scan-43.out''\<rparr>"
  have s1: "snd (addTask ''Task-1'' (Callable ''sniff'') ''sniff'' [] [] init_taskManager)
      = \<lparr>tasks = [(''sniff'', ?sniff)]\<rparr>"
    by (simp add: addTask_def Let_def init_taskManager_def unique_name.simps Task_def)
  have s2: "snd (addTask ''Task-2'' (Callable ''scan'') ''scan'' [] [] \<lparr>tasks = [(''sniff'', ?sniff)]\<rparr>)
      = \<lparr>tasks = [(''sniff'', ?sniff), (''scan'', ?scan)]\<rparr>"
    by (simp add: addTask_def Let_def unique_name.simps Task_def)
  have s3: "snd (addTask ''Task-3'' (Callable ''idle'') ''idle'' [] []
        \<lparr>tasks = [(''sniff'', ?sniff), (''scan'', ?scan)]\<rparr>)
      = \<lparr>tasks = [(''sniff'', ?sniff), (''scan'', ?scan), (''idle'', ?idle)]\<rparr>"
    by (simp add: addTask_def Let_def unique_name.simps Task_def)
  have s4: "snd (startTask 42 ''/tmp'' ''sniff''
        \<lparr>tasks = [(''sniff'', ?sniff), (''scan'', ?scan), (''idle'', ?idle)]\<rparr>)
      = \<lparr>tasks = [(''sniff'', ?sniff'), (''scan'', ?scan), (''idle'', ?idle)]\<rparr>"
    by (simp add: startTask_def task_start_def str_nat.simps digit_char_def)
  have s5: "snd (startTask 43 ''/tmp'' ''scan''
        \<lparr>tasks = [(''sniff'', ?sniff'), (''scan'', ?scan), (''idle'', ?idle)]\<rparr>)
      = \<lparr>tasks = [(''sniff'', ?sniff'), (''scan'', ?scan'), (''idle'', ?idle)]\<rparr>"
    by (simp add: startTask_def task_start_def str_nat.simps digit_char_def)
  show ?thesis
    unfolding example_tasks_def Let_def s1 s2 s3 s4 s5
    by (simp add: task_ended_def)
qed

lemma example_tasks_wf: "tm_wf example_tasks"
  unfolding example_tasks_def Let_def
  by (intro tm_wf_task_ended tm_wf_startTask tm_wf_addTask tm_wf_init)

text \<open>
  On the example manager: \<open>idle\<close> is stopped, so stopping it fails; \<open>sniff\<close> is running,
  so stopping it removes it from the listing.
\<close>

theorem stopTask_removes_witness:
  "task_state ''idle'' example_tasks \<noteq> Some ''running''
   \<and> stopTask ''idle'' example_tasks = (False, example_tasks)
   \<and> tm_wf example_tasks \<and> task_state ''sniff'' example_tasks = Some ''running''
   \<and> fst (stopTask ''sniff'' example_tasks)
   \<and> \<not> has_task ''sniff'' (snd (stopTask ''sniff'' example_tasks))
   \<and> map (\<lambda>row. row ! 1) (getTasksList [] (snd (stopTask ''sniff'' example_tasks)))
       = [''scan'', ''idle'']"
proof -
  have idle: "task_state ''idle'' example_tasks \<noteq> Some ''running''"
    and sniff: "task_state ''sniff'' example_tasks = Some ''running''"
    by (simp_all add: task_state_def example_tasks_eq)
  note a = stopTask_removes [of "''idle''" example_tasks, THEN conjunct1, THEN mp, OF idle]
  note b = stopTask_removes [of "''sniff''" example_tasks, THEN conjunct2, THEN mp,
      OF conjI [OF example_tasks_wf sniff]]
  have rows: "map (\<lambda>row. row ! 1) (getTasksList [] (snd (stopTask ''sniff'' example_tasks)))
       = [''scan'', ''idle'']"
    using b by (simp add: getTasksList_def example_tasks_eq toList_def py_in_empty)
  from a b idle sniff example_tasks_wf rows show ?thesis by simp
qed

subsection \<open>The registry after \<open>stopAllTasks\<close>\<close>




section \<open>Properties of the application\<close>

subsection \<open>The example application, evaluated\<close>

lemma apply_config_empty: "apply_config Map.empty m output = output"
  by (simp add: apply_config_def dataExists_def)

lemma demo_units:
  "loader_load (modulesList demo_app) ''x'' = Some unit_x"
  "loader_load (modulesList demo_app) ''y'' = Some unit_y"
  "loader_load (modulesList demo_app) ''z'' = Some unit_z"
  "loader_load (modulesList demo_app) ''w'' = Some unit_w"
  "loader_load (modulesList demo_app) ''s'' = None"
  "loader_load (modulesList demo_app) ''t'' = None"
  "loader_load (modulesList demo_app) ''d'' = None"
  "loader_load (modulesList demo_app) ''q'' = None"
  by (simp_all add: demo_app_def loader_load_def)

lemma demo_shortcuts:
  "loaded_shortcuts demo_app ''s'' = Some \<lparr>sc_modules = ''z'', sc_description = [], sc_mapping = []\<rparr>"
  "loaded_shortcuts demo_app ''q'' = None"
  by (simp_all add: demo_app_def)

lemma demo_fields:
  "datas demo_app = Map.empty" "SDR_PARAMETERS demo_app = []" "modules demo_app = []"
  by (simp_all add: demo_app_def)

lemma str_nat_digits:
  "str_nat (Suc 0) = ''1''" "str_nat (Suc (Suc 0)) = ''2''" "str_nat (Suc (Suc (Suc 0))) = ''3''"
  "str_nat 1 = ''1''" "str_nat 2 = ''2''" "str_nat 3 = ''3''"
  by (simp_all add: str_nat.simps digit_char_def)

lemma load_xy:
  "load ''x|y'' demo_app
     = (demo_app\<lparr>modules := [ModuleSlot ''x1'' (Some unit_x), ModuleSlot ''y2'' (Some unit_y)]\<rparr>,
        Installed)"
  by (simp add: load_def pieces_of_def demo_units demo_fields apply_config_empty
      display_name_def str_nat_digits)

lemma load_xsy:
  "load ''x|s|y'' demo_app
     = (demo_app\<lparr>modules := [ModuleSlot ''x1'' (Some unit_x),
           ShortcutSlot ''s2'' [(''z'', Some unit_z)] ''s'', ModuleSlot ''y3'' (Some unit_y)]\<rparr>,
        Installed)"
  by (simp add: load_def pieces_of_def demo_units demo_shortcuts demo_fields apply_config_empty
      display_name_def str_nat_digits)

subsection \<open>Loading\<close>

lemma load_loop_unresolved:
  "\<lbrakk>u \<in> set ms; loader_load (modulesList app) u = None; loaded_shortcuts app u = None\<rbrakk>
     \<Longrightarrow> load_loop app n ms c tmp \<noteq> Built ss"
proof (induction ms arbitrary: c tmp)
  case Nil
  then show ?case by simp
next
  case (Cons m ms)
  show ?case
  proof (cases "m = u")
    case True
    with Cons.prems show ?thesis by simp
  next
    case False
    with Cons.prems have "u \<in> set ms" by simp
    note IH = Cons.IH [OF this Cons.prems(2,3)]
    then show ?thesis
      by (auto simp: Let_def split: option.splits sum.splits)
  qed
qed

text \<open>
  Claim C2. When one piece of the expression is neither a module the loader can build
  nor a key of the shortcut table, \<open>load\<close> does not install anything: the application
  after the call, and with it the pipeline \<open>modules\<close>, every module instance in it and
  every shortcut mapping, is the application before the call.
\<close>

theorem load_rejects_unresolved:
  assumes "u \<in> set (pieces_of module_name)"
    and "loader_load (modulesList app) u = None"
    and "loaded_shortcuts app u = None"
  shows "fst (load module_name app) = app \<and> snd (load module_name app) \<noteq> Installed"
proof -
  have "\<And>ss. load_loop app (length (pieces_of module_name)) (pieces_of module_name) 1 [] \<noteq> Built ss"
    using assms by (rule load_loop_unresolved)
  then show ?thesis
    by (simp add: load_def Let_def split: loaded.splits)
qed

text \<open>
  With the pipeline \<open>x|y\<close> installed, loading \<open>x|q|y\<close> (no module or shortcut \<open>q\<close>) leaves
  it in place.
\<close>

theorem load_rejects_unresolved_witness:
  "''q'' \<in> set (pieces_of ''x|q|y'')
   \<and> loader_load (modulesList (fst (load ''x|y'' demo_app))) ''q'' = None
   \<and> loaded_shortcuts (fst (load ''x|y'' demo_app)) ''q'' = None
   \<and> fst (load ''x|q|y'' (fst (load ''x|y'' demo_app))) = fst (load ''x|y'' demo_app)
   \<and> modules (fst (load ''x|q|y'' (fst (load ''x|y'' demo_app))))
       = [ModuleSlot ''x1'' (Some unit_x), ModuleSlot ''y2'' (Some unit_y)]"
proof -
  let ?app = "fst (load ''x|y'' demo_app)"
  have q: "''q'' \<in> set (pieces_of ''x|q|y'')" by (simp add: pieces_of_def)
  have a: "loader_load (modulesList ?app) ''q'' = None"
    and b: "loaded_shortcuts ?app ''q'' = None"
    by (simp_all add: load_xy demo_units demo_shortcuts)
  from load_rejects_unresolved [OF q a b] q a b show ?thesis by (simp add: load_xy)
qed

lemma load_loop_names:
  "load_loop app n ms c tmp = Built ss
     \<Longrightarrow> map slot_name ss
         = map slot_name tmp @ map (\<lambda>(m, i). display_name m i n) (zip ms [c..<c + length ms])"
proof (induction ms arbitrary: c tmp)
  case Nil
  then show ?case by simp
next
  case (Cons m ms)
  have up: "[c..<c + length (m # ms)] = c # [Suc c..<Suc c + length ms]"
    by (simp add: upt_conv_Cons del: upt_Suc)
  from Cons.prems show ?case
    unfolding up
    by (auto simp: Let_def split: option.splits sum.splits dest!: Cons.IH)
qed

text \<open>
  Claim C6. A load that installs a pipeline names the slot of the \<open>i\<close>-th piece (from 1)
  by the piece followed by \<open>str(i)\<close> when the expression has more than one piece, and by
  the piece alone when it has one. With a module \<open>x\<close>, loading \<open>x|x\<close> gives the names
  \<open>x1\<close> and \<open>x2\<close>, and loading \<open>x\<close> gives the name \<open>x\<close>.
\<close>

theorem load_display_names:
  "(snd (load module_name app) = Installed \<longrightarrow>
      map slot_name (modules (fst (load module_name app)))
        = (if length (pieces_of module_name) > 1
           then map (\<lambda>(m, i). m @ str_nat i)
                  (zip (pieces_of module_name) [1..<Suc (length (pieces_of module_name))])
           else pieces_of module_name))
   \<and> (loader_load (modulesList app) ''x'' \<noteq> None \<longrightarrow>
        map slot_name (modules (fst (load ''x|x'' app))) = [''x1'', ''x2'']
        \<and> map slot_name (modules (fst (load ''x'' app))) = [''x''])"
proof (intro conjI impI)
  let ?ms = "pieces_of module_name"
  let ?zs = "zip ?ms [1..<Suc (length ?ms)]"
  assume "snd (load module_name app) = Installed"
  then obtain ss where b: "load_loop app (length ?ms) ?ms 1 [] = Built ss"
    and m: "modules (fst (load module_name app)) = ss"
    by (auto simp: load_def Let_def split: loaded.splits)
  from load_loop_names [OF b]
  have names: "map slot_name ss = map (\<lambda>(m, i). display_name m i (length ?ms)) ?zs"
    by simp
  show "map slot_name (modules (fst (load module_name app)))
        = (if length ?ms > 1 then map (\<lambda>(m, i). m @ str_nat i) ?zs else ?ms)"
  proof (cases "length ?ms > 1")
    case True
    then have "map (\<lambda>(m, i). display_name m i (length ?ms)) ?zs = map (\<lambda>(m, i). m @ str_nat i) ?zs"
      by (simp add: display_name_def)
    with names m True show ?thesis by simp
  next
    case False
    then have "map (\<lambda>(m, i). display_name m i (length ?ms)) ?zs = map fst ?zs"
      by (simp add: display_name_def split_def)
    also have "\<dots> = ?ms" by (rule map_fst_zip) (simp del: upt_Suc)
    finally show ?thesis using names m False by simp
  qed
next
  assume "loader_load (modulesList app) ''x'' \<noteq> None"
  then obtain md where md: "loader_load (modulesList app) ''x'' = Some md" by auto
  have p2: "pieces_of ''x|x'' = [''x'', ''x'']" and p1: "pieces_of ''x'' = [''x'']"
    by (simp_all add: pieces_of_def)
  show "map slot_name (modules (fst (load ''x|x'' app))) = [''x1'', ''x2'']"
    by (simp add: load_def p2 md display_name_def str_nat.simps digit_char_def)
  show "map slot_name (modules (fst (load ''x'' app))) = [''x'']"
    by (simp add: load_def p1 md display_name_def)
qed

text \<open>In the example application: \<open>x|s|y\<close>, \<open>x|x\<close> and \<open>x\<close>.\<close>

theorem load_display_names_witness:
  "snd (load ''x|s|y'' demo_app) = Installed
   \<and> map slot_name (modules (fst (load ''x|s|y'' demo_app))) = [''x1'', ''s2'', ''y3'']
   \<and> loader_load (modulesList demo_app) ''x'' \<noteq> None
   \<and> map slot_name (modules (fst (load ''x|x'' demo_app))) = [''x1'', ''x2'']
   \<and> map slot_name (modules (fst (load ''x'' demo_app))) = [''x'']"
proof -
  have p: "pieces_of ''x|s|y'' = [''x'', ''s'', ''y'']" by (simp add: pieces_of_def)
  have i: "snd (load ''x|s|y'' demo_app) = Installed" by (simp add: load_xsy)
  have x: "loader_load (modulesList demo_app) ''x'' \<noteq> None" by (simp add: demo_units)
  have u: "[1..<Suc (length [''x'', ''s'', ''y''])] = [1, 2, 3]"
    by (simp add: upt_rec)
  note a = load_display_names [of "''x|s|y''" demo_app, THEN conjunct1, THEN mp, OF i]
  note b = load_display_names [of "''x|s|y''" demo_app, THEN conjunct2, THEN mp, OF x]
  from a have "map slot_name (modules (fst (load ''x|s|y'' demo_app))) = [''x1'', ''s2'', ''y3'']"
    unfolding p u by (simp add: str_nat_digits)
  with b i x show ?thesis by simp
qed

subsection \<open>Setting parameters\<close>

lemma split_on_notin: "c \<notin> set s \<Longrightarrow> split_on c s = [s]"
  by (induction s) auto

lemma split_on_two_has_sep: "split_on c s = [a, b] \<Longrightarrow> c \<in> set s"
  using split_on_notin [of c s] by auto

lemma set_named_slot_nomatch:
  "P \<notin> set (map slot_name ss) \<Longrightarrow> set_named_slot sdr P N v ss tbl = ((ss, tbl), Inr PyNone)"
proof (induction ss)
  case Nil
  then show ?case by simp
next
  case (Cons s ss)
  then have "\<not> slot_matches P s" by (cases s) auto
  with Cons show ?case by simp
qed

text \<open>
  Claim C10. With two or more slots loaded and a name \<open>P.N\<close> (one dot) whose prefix \<open>P\<close>
  is no slot's display name, \<open>_set\<close> changes neither a slot nor a shortcut mapping and
  returns \<open>None\<close> without raising, and \<open>set\<close> prints no message and leaves the
  application as it was.
\<close>

theorem set_unmatched_prefix_silent:
  assumes "2 \<le> length (modules app)"
    and "split_on CHR ''.'' nm = [P, N]"
    and "P \<notin> set (map slot_name (modules app))"
  shows "priv_set (SDR_PARAMETERS app) nm v (modules app) (loaded_shortcuts app)
           = ((modules app, loaded_shortcuts app), Inr PyNone)
         \<and> set_cmd nm v app = (app, None)"
proof -
  from assms(1) obtain s1 s2 rest where ss: "modules app = s1 # s2 # rest"
    by (cases "modules app"; cases "tl (modules app)") auto
  have dot: "CHR ''.'' \<in> set nm" using assms(2) by (rule split_on_two_has_sep)
  have sp: "split_dotted nm = Inr (P, N)" using assms(2) by (simp add: split_dotted_def)
  have nomatch: "set_named_slot (SDR_PARAMETERS app) P N v (s1 # s2 # rest) (loaded_shortcuts app)
      = ((s1 # s2 # rest, loaded_shortcuts app), Inr PyNone)"
    using assms(3) unfolding ss by (rule set_named_slot_nomatch)
  have "priv_set (SDR_PARAMETERS app) nm v (s1 # s2 # rest) (loaded_shortcuts app)
      = ((s1 # s2 # rest, loaded_shortcuts app), Inr PyNone)"
    using dot sp nomatch by simp
  then have p: "priv_set (SDR_PARAMETERS app) nm v (modules app) (loaded_shortcuts app)
           = ((modules app, loaded_shortcuts app), Inr PyNone)"
    by (simp add: ss)
  then show ?thesis by (simp add: set_cmd_def)
qed

text \<open>With \<open>x|y\<close> loaded, the slots are \<open>x1\<close> and \<open>y2\<close>; \<open>w1.K\<close> addresses neither.\<close>

theorem set_unmatched_prefix_silent_witness:
  "2 \<le> length (modules (fst (load ''x|y'' demo_app)))
   \<and> split_on CHR ''.'' ''w1.K'' = [''w1'', ''K'']
   \<and> ''w1'' \<notin> set (map slot_name (modules (fst (load ''x|y'' demo_app))))
   \<and> set_cmd ''w1.K'' ''v'' (fst (load ''x|y'' demo_app)) = (fst (load ''x|y'' demo_app), None)"
proof -
  let ?app = "fst (load ''x|y'' demo_app)"
  have l: "2 \<le> length (modules ?app)" by (simp add: load_xy)
  have s: "split_on CHR ''.'' ''w1.K'' = [''w1'', ''K'']" by simp
  have u: "''w1'' \<notin> set (map slot_name (modules ?app))" by (simp add: load_xy)
  from set_unmatched_prefix_silent [OF l s u, of "''v''"] l s u show ?thesis by simp
qed

subsection \<open>Running\<close>

lemma carry_empty: "carry Map.empty m = m"
  by (simp add: carry_def)

lemma demo_shortcuts_de:
  "loaded_shortcuts demo_app ''d'' = Some \<lparr>sc_modules = ''x'', sc_description = [],
      sc_mapping = [(''P'', \<lparr>parameters = [''A''], mvalue = Some ''1''\<rparr>)]\<rparr>"
  "loaded_shortcuts demo_app ''e'' = Some \<lparr>sc_modules = ''x'', sc_description = [],
      sc_mapping = [(''A'', \<lparr>parameters = [''K''], mvalue = Some ''1''\<rparr>)]\<rparr>"
  "loader_load (modulesList demo_app) ''e'' = None"
  by (simp_all add: demo_app_def loader_load_def)

lemma load_sy:
  "load ''s|y'' demo_app
     = (demo_app\<lparr>modules := [ShortcutSlot ''s1'' [(''z'', Some unit_z)] ''s'',
           ModuleSlot ''y2'' (Some unit_y)]\<rparr>, Installed)"
  by (simp add: load_def pieces_of_def demo_units demo_shortcuts demo_fields apply_config_empty
      display_name_def str_nat_digits)

lemma execute_unit_z: "execute unit_z = (unit_z, Inr (False, Map.empty))"
  by (simp add: execute_def unit_z_def)

lemma execute_unit_y: "execute unit_y = (unit_y, Inr (True, [''K'' \<mapsto> ''fromy'']))"
  by (simp add: execute_def unit_y_def)

text \<open>
  Claim C3, evaluated where the code departs from it. The pipeline \<open>s|y\<close> of the
  example application has the shortcut slot \<open>s1\<close>, whose only member \<open>z\<close> reports
  \<open>success: False\<close>, and the module slot \<open>y2\<close>. The run executes \<open>z\<close>, prints the failure
  of \<open>s1\<close>, and then executes \<open>y2\<close>: the \<open>break\<close> of line 484 ends the loop over the members,
  not the loop over the slots.
\<close>

theorem shortcut_member_failure_continues:
  "run (fst (load ''s|y'' demo_app))
     = ((fst (load ''s|y'' demo_app),
         [Executed ''z'' (args unit_z), Shortcut_failed ''s1'', Executed ''y2'' (args unit_y)]),
        None)"
  by (simp add: run_def load_sy carry_empty execute_unit_z execute_unit_y)

text \<open>
  The part of the claim the code keeps: a module slot that reports failure ends the run;
  the slots after it are returned as they were and nothing of them is executed.
\<close>

lemma module_failure_stops_run:
  "execute (carry cargs m) = (m', Inr (False, output))
     \<Longrightarrow> run_slots cargs (ModuleSlot n (Some m) # rest)
         = ((ModuleSlot n (Some m') # rest, [Executed n (args (carry cargs m)), Module_failed n]), None)"
  by simp

lemma unit_x_fields:
  "args unit_x ''A'' = Some ''0''" "args unit_x ''K'' = Some ''user''" "args unit_x ''P'' = None"
  "args unit_x ''B'' = None" "\<not> dynamicArgs unit_x" "\<not> is_wireless unit_x"
  by (simp_all add: unit_x_def)

text \<open>
  Claim C5, evaluated where the code departs from it. Shortcut \<open>d\<close> maps its parameter
  \<open>P\<close> to the argument \<open>A\<close> of its member \<open>x\<close>, with the default \<open>1\<close>: \<open>load\<close> calls \<open>_set\<close>
  with the name \<open>P\<close> on the member, which declares no \<open>P\<close>, so \<open>IncorrectParameter\<close> leaves
  \<open>load\<close> and nothing is installed. Shortcut \<open>e\<close> maps its parameter \<open>A\<close> to the argument
  \<open>K\<close>, with the default \<open>1\<close>: \<open>load\<close> installs the slot with the default in the member's
  argument \<open>A\<close>, and the mapped argument \<open>K\<close> keeps its old value.
\<close>

theorem shortcut_default_not_routed:
  "load ''d'' demo_app = (demo_app, Load_raised IncorrectParameter)
   \<and> load ''e'' demo_app
       = (demo_app\<lparr>modules :=
            [ShortcutSlot ''e'' [(''x'', Some (unit_x\<lparr>args := (args unit_x)(''A'' \<mapsto> ''1'')\<rparr>))] ''e'']\<rparr>,
          Installed)
   \<and> ((args unit_x)(''A'' \<mapsto> ''1'')) ''K'' = Some ''user''"
  by (simp add: load_def pieces_of_def demo_units demo_shortcuts_de demo_fields
      display_name_def set_mdict_def set_module_def unit_x_fields)


lemma carry_fields [simp]:
  "sdrConfig (carry c m) = sdrConfig m" "behaviour (carry c m) = behaviour m"
  "dynamicArgs (carry c m) = dynamicArgs m"
  by (simp_all add: carry_def)

lemma carry_overrides:
  "c K = Some x \<Longrightarrow> args m K \<noteq> None \<or> dynamicArgs m \<Longrightarrow> args (carry c m) K = Some x"
  by (auto simp: carry_def)

lemma run_slots_success:
  "behaviour m (args (carry c m)) (sdrConfig m) = Returns True output a
     \<Longrightarrow> snd (fst (run_slots c (ModuleSlot n (Some m) # rest)))
         = Executed n (args (carry c m)) # snd (fst (run_slots (c ++ output) rest))"
  by (simp add: execute_def split: prod.splits)

text \<open>
  Claim C4, as the code has it. In a pipeline of two module slots, when stage 1 reports
  success with an output that has the key \<open>K\<close>, and stage 2 declares \<open>K\<close> or takes
  undeclared arguments, stage 2 is executed, and the arguments it is executed with hold
  stage 1's value for \<open>K\<close>, whatever \<open>K\<close> held in stage 2 before the run. In a pipeline of
  three module slots where stages 1 and 2 report success and stage 2's output has the key
  \<open>K\<close>, stage 3 is executed with stage 2's value for \<open>K\<close>, also when stage 1 gave the key
  a value of its own: the last writer wins.
\<close>

theorem carried_output_overrides:
  "(behaviour m1 (args m1) (sdrConfig m1) = Returns True out1 a1
      \<and> out1 K = Some x \<and> (args m2 K \<noteq> None \<or> dynamicArgs m2)
    \<longrightarrow> (\<exists>ev. snd (fst (run (app\<lparr>modules := [ModuleSlot n1 (Some m1), ModuleSlot n2 (Some m2)]\<rparr>)))
                = Executed n1 (args m1) # Executed n2 (args (carry out1 m2)) # ev)
        \<and> args (carry out1 m2) K = Some x)
   \<and> (behaviour m1 (args m1) (sdrConfig m1) = Returns True out1 a1
      \<and> behaviour m2 (args (carry out1 m2)) (sdrConfig m2) = Returns True out2 a2
      \<and> out2 K = Some y \<and> (args m3 K \<noteq> None \<or> dynamicArgs m3)
    \<longrightarrow> (\<exists>ev. snd (fst (run (app\<lparr>modules :=
                  [ModuleSlot n1 (Some m1), ModuleSlot n2 (Some m2), ModuleSlot n3 (Some m3)]\<rparr>)))
                = Executed n1 (args m1) # Executed n2 (args (carry out1 m2))
                  # Executed n3 (args (carry (out1 ++ out2) m3)) # ev)
        \<and> args (carry (out1 ++ out2) m3) K = Some y)"
proof (intro conjI impI)
  assume h: "behaviour m1 (args m1) (sdrConfig m1) = Returns True out1 a1
      \<and> out1 K = Some x \<and> (args m2 K \<noteq> None \<or> dynamicArgs m2)"
  then have s1: "behaviour m1 (args (carry Map.empty m1)) (sdrConfig m1) = Returns True out1 a1"
    by (simp add: carry_empty)
  have "snd (fst (run_slots Map.empty ([ModuleSlot n1 (Some m1), ModuleSlot n2 (Some m2)])))
      = Executed n1 (args m1) # snd (fst (run_slots out1 [ModuleSlot n2 (Some m2)]))"
    using run_slots_success [OF s1] by (simp add: carry_empty)
  moreover have "\<exists>ev. snd (fst (run_slots out1 [ModuleSlot n2 (Some m2)]))
      = Executed n2 (args (carry out1 m2)) # ev"
    by (cases "behaviour m2 (args (carry out1 m2)) (sdrConfig m2)")
       (auto simp: execute_def split: prod.splits)
  ultimately
  show "\<exists>ev. snd (fst (run (app\<lparr>modules := [ModuleSlot n1 (Some m1), ModuleSlot n2 (Some m2)]\<rparr>)))
                = Executed n1 (args m1) # Executed n2 (args (carry out1 m2)) # ev"
    by (auto simp: run_def split: prod.splits)
  from h show "args (carry out1 m2) K = Some x" by (simp add: carry_overrides)
next
  assume h: "behaviour m1 (args m1) (sdrConfig m1) = Returns True out1 a1
      \<and> behaviour m2 (args (carry out1 m2)) (sdrConfig m2) = Returns True out2 a2
      \<and> out2 K = Some y \<and> (args m3 K \<noteq> None \<or> dynamicArgs m3)"
  then have s1: "behaviour m1 (args (carry Map.empty m1)) (sdrConfig m1) = Returns True out1 a1"
    and s2: "behaviour m2 (args (carry out1 m2)) (sdrConfig m2) = Returns True out2 a2"
    by (simp_all add: carry_empty)
  let ?rest = "[ModuleSlot n2 (Some m2), ModuleSlot n3 (Some m3)]"
  have "snd (fst (run_slots Map.empty (ModuleSlot n1 (Some m1) # ?rest)))
      = Executed n1 (args m1) # snd (fst (run_slots out1 ?rest))"
    using run_slots_success [OF s1] by (simp add: carry_empty)
  moreover have "snd (fst (run_slots out1 ?rest))
      = Executed n2 (args (carry out1 m2)) # snd (fst (run_slots (out1 ++ out2) [ModuleSlot n3 (Some m3)]))"
    using run_slots_success [OF s2] by simp
  moreover have "\<exists>ev. snd (fst (run_slots (out1 ++ out2) [ModuleSlot n3 (Some m3)]))
      = Executed n3 (args (carry (out1 ++ out2) m3)) # ev"
    by (cases "behaviour m3 (args (carry (out1 ++ out2) m3)) (sdrConfig m3)")
       (auto simp: execute_def split: prod.splits)
  ultimately
  show "\<exists>ev. snd (fst (run (app\<lparr>modules :=
                  [ModuleSlot n1 (Some m1), ModuleSlot n2 (Some m2), ModuleSlot n3 (Some m3)]\<rparr>)))
                = Executed n1 (args m1) # Executed n2 (args (carry out1 m2))
                  # Executed n3 (args (carry (out1 ++ out2) m3)) # ev"
    by (auto simp: run_def split: prod.splits)
  from h have "(out1 ++ out2) K = Some y" by (simp add: map_add_def)
  with h show "args (carry (out1 ++ out2) m3) K = Some y" by (simp add: carry_overrides)
qed

text \<open>
  Without the success of stage 1 the claim fails: the check of line 471 stands between
  the two stages. Module \<open>w\<close> of the example application reports failure with an output
  that has the key \<open>K\<close>, and \<open>y\<close> declares \<open>K\<close>; the run of \<open>w|y\<close> executes \<open>w1\<close>, prints its
  failure, and never executes \<open>y2\<close>.
\<close>

lemma load_wy:
  "load ''w|y'' demo_app
     = (demo_app\<lparr>modules := [ModuleSlot ''w1'' (Some unit_w), ModuleSlot ''y2'' (Some unit_y)]\<rparr>,
        Installed)"
  by (simp add: load_def pieces_of_def demo_units demo_fields apply_config_empty
      display_name_def str_nat_digits)

lemma execute_unit_w: "execute unit_w = (unit_w, Inr (False, [''K'' \<mapsto> ''fromw'']))"
  by (simp add: execute_def unit_w_def)

theorem failed_stage_output_not_carried:
  "behaviour unit_w (args unit_w) (sdrConfig unit_w)
     = Returns False [''K'' \<mapsto> ''fromw''] (args unit_w)
   \<and> args unit_y ''K'' = Some ''user''
   \<and> run (fst (load ''w|y'' demo_app))
       = ((fst (load ''w|y'' demo_app), [Executed ''w1'' (args unit_w), Module_failed ''w1'']), None)"
proof (intro conjI)
  show "behaviour unit_w (args unit_w) (sdrConfig unit_w)
     = Returns False [''K'' \<mapsto> ''fromw''] (args unit_w)"
    by (simp add: unit_w_def)
  show "args unit_y ''K'' = Some ''user''"
    by (simp add: unit_y_def)
  show "run (fst (load ''w|y'' demo_app))
       = ((fst (load ''w|y'' demo_app), [Executed ''w1'' (args unit_w), Module_failed ''w1'']), None)"
    by (simp add: run_def load_wy carry_empty execute_unit_w)
qed

lemma load_xyy:
  "load ''x|y|y'' demo_app
     = (demo_app\<lparr>modules := [ModuleSlot ''x1'' (Some unit_x), ModuleSlot ''y2'' (Some unit_y),
           ModuleSlot ''y3'' (Some unit_y)]\<rparr>, Installed)"
  by (simp add: load_def pieces_of_def demo_units demo_fields apply_config_empty
      display_name_def str_nat_digits)

lemma unit_xy_behaviour:
  "behaviour unit_x a s = Returns True [''K'' \<mapsto> ''fromx''] a"
  "behaviour unit_y a s = Returns True [''K'' \<mapsto> ''fromy''] a"
  "args unit_y ''K'' = Some ''user''"
  by (simp_all add: unit_x_def unit_y_def)

text \<open>
  In the example application: \<open>x\<close> gives \<open>K = fromx\<close> and \<open>y\<close> gives \<open>K = fromy\<close>; the
  user's value of \<open>K\<close> in \<open>y\<close> is \<open>user\<close>. In \<open>x|y\<close> the second stage runs with \<open>fromx\<close>, in
  \<open>x|y|y\<close> the third stage runs with \<open>fromy\<close>.
\<close>

theorem carried_output_overrides_witness:
  "behaviour unit_x (args unit_x) (sdrConfig unit_x) = Returns True [''K'' \<mapsto> ''fromx''] (args unit_x)
   \<and> args unit_y ''K'' = Some ''user''
   \<and> (\<exists>ev. snd (fst (run (fst (load ''x|y'' demo_app))))
          = Executed ''x1'' (args unit_x) # Executed ''y2'' (args (carry [''K'' \<mapsto> ''fromx''] unit_y)) # ev)
   \<and> args (carry [''K'' \<mapsto> ''fromx''] unit_y) ''K'' = Some ''fromx''
   \<and> behaviour unit_y (args (carry [''K'' \<mapsto> ''fromx''] unit_y)) (sdrConfig unit_y)
       = Returns True [''K'' \<mapsto> ''fromy''] (args (carry [''K'' \<mapsto> ''fromx''] unit_y))
   \<and> (\<exists>ev. snd (fst (run (fst (load ''x|y|y'' demo_app))))
          = Executed ''x1'' (args unit_x) # Executed ''y2'' (args (carry [''K'' \<mapsto> ''fromx''] unit_y))
            # Executed ''y3'' (args (carry ([''K'' \<mapsto> ''fromx''] ++ [''K'' \<mapsto> ''fromy'']) unit_y)) # ev)
   \<and> args (carry ([''K'' \<mapsto> ''fromx''] ++ [''K'' \<mapsto> ''fromy'']) unit_y) ''K'' = Some ''fromy''"
proof -
  let ?o1 = "[''K'' \<mapsto> ''fromx'']" and ?o2 = "[''K'' \<mapsto> ''fromy'']"
  have b1: "behaviour unit_x (args unit_x) (sdrConfig unit_x) = Returns True ?o1 (args unit_x)"
    and b2: "behaviour unit_y (args (carry ?o1 unit_y)) (sdrConfig unit_y)
       = Returns True ?o2 (args (carry ?o1 unit_y))"
    and k: "args unit_y ''K'' = Some ''user''"
    by (simp_all add: unit_xy_behaviour)
  have h1: "behaviour unit_x (args unit_x) (sdrConfig unit_x) = Returns True ?o1 (args unit_x)
      \<and> ?o1 ''K'' = Some ''fromx'' \<and> (args unit_y ''K'' \<noteq> None \<or> dynamicArgs unit_y)"
    using b1 k by simp
  have h2: "behaviour unit_x (args unit_x) (sdrConfig unit_x) = Returns True ?o1 (args unit_x)
      \<and> behaviour unit_y (args (carry ?o1 unit_y)) (sdrConfig unit_y)
          = Returns True ?o2 (args (carry ?o1 unit_y))
      \<and> ?o2 ''K'' = Some ''fromy'' \<and> (args unit_y ''K'' \<noteq> None \<or> dynamicArgs unit_y)"
    using b1 b2 k by simp
  note two = carried_output_overrides [where ?m1.0 = unit_x and ?out1.0 = ?o1
      and ?a1.0 = "args unit_x" and K = "''K''" and x = "''fromx''" and ?m2.0 = unit_y
      and app = demo_app and ?n1.0 = "''x1''" and ?n2.0 = "''y2''",
      THEN conjunct1, THEN mp, OF h1]
  note three = carried_output_overrides [where ?m1.0 = unit_x and ?out1.0 = ?o1
      and ?a1.0 = "args unit_x" and K = "''K''" and ?m2.0 = unit_y
      and app = demo_app and ?n1.0 = "''x1''" and ?n2.0 = "''y2''" and ?out2.0 = ?o2
      and ?a2.0 = "args (carry ?o1 unit_y)" and y = "''fromy''" and ?m3.0 = unit_y
      and ?n3.0 = "''y3''", THEN conjunct2, THEN mp, OF h2]
  from two three b1 b2 k show ?thesis by (simp add: load_xy load_xyy)
qed

subsection \<open>Setting a shortcut parameter\<close>

paragraph \<open>One instance\<close>

lemma set_module_get:
  "snd (set_module sdr p v m) = Inr PyTrue \<Longrightarrow> get_module sdr p (fst (set_module sdr p v m)) = Some v"
  by (auto simp: set_module_def get_module_def split: if_splits)

lemma set_module_keeps:
  "get_module sdr q m = Some v \<Longrightarrow> get_module sdr q (fst (set_module sdr p v m)) = Some v"
  by (auto simp: set_module_def get_module_def split: if_splits)

lemma set_module_stable:
  "snd (set_module sdr q w (fst (set_module sdr p v m))) = snd (set_module sdr q w m)"
  by (auto simp: set_module_def split: if_splits)

lemma set_module_fail:
  "snd (set_module sdr p v m) \<noteq> Inr PyTrue \<Longrightarrow> fst (set_module sdr p v m) = m"
  by (auto simp: set_module_def split: if_splits)

paragraph \<open>One module dictionary\<close>

lemma set_mdict_Some:
  "snd d = Some m \<Longrightarrow> set_mdict sdr p v d
     = ((fst d, Some (fst (set_module sdr p v m))), snd (set_module sdr p v m))"
  by (simp add: set_mdict_def split: prod.splits)

lemma set_mdict_None: "snd d = None \<Longrightarrow> set_mdict sdr p v d = (d, Inr PyFalse)"
  by (simp add: set_mdict_def)

lemma set_mdict_shape [simp]:
  "fst (fst (set_mdict sdr p v d)) = fst d"
  "(snd (fst (set_mdict sdr p v d)) = None) = (snd d = None)"
  by (cases "snd d"; simp add: set_mdict_Some set_mdict_None)+

lemma set_mdict_get:
  "snd (set_mdict sdr p v d) = Inr PyTrue \<Longrightarrow> get_mdict sdr p (fst (set_mdict sdr p v d)) = Some v"
  by (cases "snd d") (simp_all add: set_mdict_Some set_mdict_None get_mdict_def set_module_get)

lemma set_mdict_keeps:
  "get_mdict sdr q d = Some v \<Longrightarrow> get_mdict sdr q (fst (set_mdict sdr p v d)) = Some v"
  by (cases "snd d") (simp_all add: set_mdict_Some set_mdict_None get_mdict_def set_module_keeps)

lemma set_mdict_stable:
  "snd (set_mdict sdr q w (fst (set_mdict sdr p v d))) = snd (set_mdict sdr q w d)"
  by (cases "snd d") (simp_all add: set_mdict_Some set_mdict_None set_module_stable)

lemma set_mdict_fail:
  "snd (set_mdict sdr p v d) \<noteq> Inr PyTrue \<Longrightarrow> fst (set_mdict sdr p v d) = d"
  by (cases "snd d") (simp_all add: set_mdict_Some set_mdict_None set_module_fail prod_eq_iff)

paragraph \<open>A list of module dictionaries\<close>

lemma set_named_mdict_Cons:
  "set_named_mdict sdr mn an v (d # ds)
     = (if snd d \<noteq> None \<and> mn = fst d
        then (fst (set_mdict sdr an v d) # ds, snd (set_mdict sdr an v d))
        else (d # fst (set_named_mdict sdr mn an v ds), snd (set_named_mdict sdr mn an v ds)))"
  by (simp split: prod.splits)

lemma set_named_mdict_get:
  "snd (set_named_mdict sdr mn an v ds) = Inr PyTrue
     \<Longrightarrow> get_named_mdict sdr mn an (fst (set_named_mdict sdr mn an v ds)) = Some v"
  by (induction ds) (auto simp: set_named_mdict_Cons set_mdict_get simp del: set_named_mdict.simps(2) split: if_splits)

lemma set_named_mdict_keeps:
  "get_named_mdict sdr mn' an' ds = Some v
     \<Longrightarrow> get_named_mdict sdr mn' an' (fst (set_named_mdict sdr mn an v ds)) = Some v"
  by (induction ds) (auto simp: set_named_mdict_Cons set_mdict_keeps simp del: set_named_mdict.simps(2) split: if_splits)

lemma set_named_mdict_stable:
  "snd (set_named_mdict sdr mn' an' w (fst (set_named_mdict sdr mn an v ds)))
     = snd (set_named_mdict sdr mn' an' w ds)"
  by (induction ds) (auto simp: set_named_mdict_Cons set_mdict_stable simp del: set_named_mdict.simps(2) split: if_splits)

lemma set_named_mdict_fail:
  "snd (set_named_mdict sdr mn an v ds) \<noteq> Inr PyTrue \<Longrightarrow> fst (set_named_mdict sdr mn an v ds) = ds"
  by (induction ds) (auto simp: set_named_mdict_Cons set_mdict_fail simp del: set_named_mdict.simps(2) split: if_splits)

lemma set_named_mdict_length [simp]:
  "length (fst (set_named_mdict sdr mn an v ds)) = length ds"
  by (induction ds) (auto simp: set_named_mdict_Cons simp del: set_named_mdict.simps(2) split: if_splits)


lemma list_shape: "ms = [] \<or> (\<exists>d. ms = [d]) \<or> 2 \<le> length ms"
  by (cases ms; cases "tl ms") auto

lemma set_mdicts_one:
  "set_mdicts sdr p v [d] = ([fst (set_mdict sdr p v d)], snd (set_mdict sdr p v d))"
  by (simp split: prod.splits)

declare set_mdicts.simps(2) [simp del]

lemma set_mdicts_long:
  "2 \<le> length ds \<Longrightarrow> set_mdicts sdr p v ds
     = (if CHR ''.'' \<in> set p
        then (case split_dotted p of
                Inl e \<Rightarrow> (ds, Inl e)
              | Inr (mn, an) \<Rightarrow> set_named_mdict sdr mn an v ds)
        else (ds, Inl MultipleModulesLoaded))"
  by (cases ds; cases "tl ds") auto

lemma get_mdicts_long:
  "2 \<le> length ds \<Longrightarrow> get_mdicts sdr p ds
     = (case split_dotted p of
          Inl e \<Rightarrow> None
        | Inr (mn, an) \<Rightarrow> get_named_mdict sdr mn an ds)"
  by (cases ds; cases "tl ds") auto

lemma set_mdicts_length [simp]: "length (fst (set_mdicts sdr p v ms)) = length ms"
  using list_shape [of ms]
  by (auto simp: set_mdicts_one set_mdicts_long split: sum.splits)

lemma set_mdicts_get:
  "snd (set_mdicts sdr p v ms) = Inr PyTrue \<Longrightarrow> get_mdicts sdr p (fst (set_mdicts sdr p v ms)) = Some v"
  using list_shape [of ms]
proof (elim disjE exE)
  assume "2 \<le> length ms" and t: "snd (set_mdicts sdr p v ms) = Inr PyTrue"
  then have "2 \<le> length (fst (set_mdicts sdr p v ms))" by simp
  from get_mdicts_long [OF this] t \<open>2 \<le> length ms\<close> show ?thesis
    by (auto simp: set_mdicts_long set_named_mdict_get split: sum.splits if_splits)
qed (auto simp: set_mdicts_one set_mdict_get)

lemma set_mdicts_keeps:
  "get_mdicts sdr q ms = Some v \<Longrightarrow> get_mdicts sdr q (fst (set_mdicts sdr p v ms)) = Some v"
  using list_shape [of ms]
proof (elim disjE exE)
  assume l: "2 \<le> length ms" and t: "get_mdicts sdr q ms = Some v"
  then have "2 \<le> length (fst (set_mdicts sdr p v ms))" by simp
  from get_mdicts_long [OF this] t l show ?thesis
    by (auto simp: set_mdicts_long get_mdicts_long set_named_mdict_keeps split: sum.splits if_splits)
qed (auto simp: set_mdicts_one set_mdict_keeps)

lemma set_mdicts_stable:
  "snd (set_mdicts sdr q w (fst (set_mdicts sdr p v ms))) = snd (set_mdicts sdr q w ms)"
  using list_shape [of ms]
proof (elim disjE exE)
  assume l: "2 \<le> length ms"
  then have "2 \<le> length (fst (set_mdicts sdr p v ms))" by simp
  from set_mdicts_long [OF this] l show ?thesis
    by (auto simp: set_mdicts_long set_named_mdict_stable split: sum.splits if_splits)
qed (auto simp: set_mdicts_one set_mdict_stable)

lemma set_mdicts_fail:
  "snd (set_mdicts sdr p v ms) \<noteq> Inr PyTrue \<Longrightarrow> fst (set_mdicts sdr p v ms) = ms"
  using list_shape [of ms]
  by (auto simp: set_mdicts_one set_mdicts_long set_mdict_fail set_named_mdict_fail
      split: sum.splits if_splits)


paragraph \<open>The loop over the targets\<close>

lemma set_targets_Cons:
  "set_targets sdr v (p # ps) s ms
     = (if s = PyTrue
        then (case snd (set_mdicts sdr p v ms) of
                Inl e \<Rightarrow> (fst (set_mdicts sdr p v ms), Inl e)
              | Inr r \<Rightarrow> set_targets sdr v ps r (fst (set_mdicts sdr p v ms)))
        else set_targets sdr v ps s ms)"
  by (simp split: prod.splits sum.splits)

declare set_targets.simps(2) [simp del]

lemma set_targets_skip: "s \<noteq> PyTrue \<Longrightarrow> set_targets sdr v ps s ms = (ms, Inr s)"
  by (induction ps) (simp_all add: set_targets_Cons)

lemma set_targets_keeps:
  "get_mdicts sdr q ms = Some v \<Longrightarrow> get_mdicts sdr q (fst (set_targets sdr v ps s ms)) = Some v"
  by (induction ps arbitrary: s ms) (auto simp: set_targets_Cons set_mdicts_keeps split: sum.splits)

lemma set_targets_stable:
  "snd (set_mdicts sdr q w (fst (set_targets sdr v ps s ms))) = snd (set_mdicts sdr q w ms)"
  by (induction ps arbitrary: s ms) (auto simp: set_targets_Cons set_mdicts_stable split: sum.splits)

lemma set_targets_true_iff:
  "(snd (set_targets sdr v ps PyTrue ms) = Inr PyTrue)
     = (\<forall>p\<in>set ps. snd (set_mdicts sdr p v ms) = Inr PyTrue)"
proof (induction ps arbitrary: ms)
  case Nil
  then show ?case by simp
next
  case (Cons p ps)
  show ?case
  proof (cases "snd (set_mdicts sdr p v ms) = Inr PyTrue")
    case True
    then show ?thesis
      by (simp add: set_targets_Cons Cons.IH set_mdicts_stable)
  next
    case False
    then show ?thesis
      by (cases "snd (set_mdicts sdr p v ms)") (auto simp: set_targets_Cons set_targets_skip)
  qed
qed

lemma set_targets_get:
  "snd (set_targets sdr v ps PyTrue ms) = Inr PyTrue
     \<Longrightarrow> \<forall>p\<in>set ps. get_mdicts sdr p (fst (set_targets sdr v ps PyTrue ms)) = Some v"
proof (induction ps arbitrary: ms)
  case Nil
  then show ?case by simp
next
  case (Cons p ps)
  from Cons.prems have ok: "snd (set_mdicts sdr p v ms) = Inr PyTrue"
    by (simp add: set_targets_true_iff)
  let ?ms = "fst (set_mdicts sdr p v ms)"
  from ok have step: "set_targets sdr v (p # ps) PyTrue ms = set_targets sdr v ps PyTrue ?ms"
    by (simp add: set_targets_Cons)
  with Cons.prems have "snd (set_targets sdr v ps PyTrue ?ms) = Inr PyTrue" by simp
  from Cons.IH [OF this]
  have rest: "\<forall>q\<in>set ps. get_mdicts sdr q (fst (set_targets sdr v ps PyTrue ?ms)) = Some v" .
  from ok have "get_mdicts sdr p ?ms = Some v" by (rule set_mdicts_get)
  then have "get_mdicts sdr p (fst (set_targets sdr v ps PyTrue ?ms)) = Some v"
    by (rule set_targets_keeps)
  with rest show ?case unfolding step by simp
qed

lemma set_targets_stops:
  assumes "\<forall>p\<in>set ps1. snd (set_mdicts sdr p v ms) = Inr PyTrue"
    and "snd (set_mdicts sdr q v ms) \<noteq> Inr PyTrue"
  shows "fst (set_targets sdr v (ps1 @ q # ps2) PyTrue ms) = fst (set_targets sdr v ps1 PyTrue ms)"
  using assms
proof (induction ps1 arbitrary: ms)
  case Nil
  then have f: "fst (set_mdicts sdr q v ms) = ms" by (simp add: set_mdicts_fail)
  from Nil show ?case
    by (cases "snd (set_mdicts sdr q v ms)") (auto simp: set_targets_Cons f set_targets_skip)
next
  case (Cons p ps1)
  let ?ms = "fst (set_mdicts sdr p v ms)"
  from Cons.prems have ok: "snd (set_mdicts sdr p v ms) = Inr PyTrue" by simp
  have "\<forall>p\<in>set ps1. snd (set_mdicts sdr p v ?ms) = Inr PyTrue"
    and "snd (set_mdicts sdr q v ?ms) \<noteq> Inr PyTrue"
    using Cons.prems by (simp_all add: set_mdicts_stable)
  from Cons.IH [OF this] ok show ?case by (simp add: set_targets_Cons)
qed


paragraph \<open>A shortcut slot\<close>

lemma store_value_lookup:
  "map_of (mapping_of tbl ref) nm = Some e
     \<Longrightarrow> map_of (mapping_of (store_value tbl ref nm v) ref) nm = Some (e\<lparr>mvalue := Some v\<rparr>)"
  by (auto simp: mapping_of_def store_value_def AList.update_conv' split: option.splits)

lemma set_shortcut_proj:
  "map_of (mapping_of tbl ref) nm = Some e
     \<Longrightarrow> set_shortcut sdr nm v members ref tbl
         = ((fst (set_targets sdr v (parameters e) PyTrue members),
             if snd (set_targets sdr v (parameters e) PyTrue members) = Inr PyTrue
             then store_value tbl ref nm v else tbl),
            snd (set_targets sdr v (parameters e) PyTrue members))"
  by (auto simp: set_shortcut_def split: prod.splits sum.splits)

text \<open>
  Claim C1, as the code has it. For a shortcut slot and a parameter \<open>nm\<close> its mapping
  declares, with the targets \<open>parameters e\<close>: \<open>_set\<close> returns \<open>True\<close> exactly when every
  target, set on its own on the members as they were, succeeds; then every target's
  argument holds \<open>v\<close> and the entry's \<open>value\<close> is \<open>v\<close>. When the call does not return
  \<open>True\<close> (a target raised, or gave \<open>False\<close> or \<open>None\<close>), the shortcut table, and so the
  entry's \<open>value\<close>, is what it was; the targets before the first one that fails have
  been set to \<open>v\<close> and keep it: nothing is rolled back.
\<close>

theorem shortcut_set_fans_out:
  assumes "map_of (mapping_of tbl ref) nm = Some e"
  shows "\<exists>members' tbl' r.
           priv_set sdr nm v [ShortcutSlot n members ref] tbl
             = (([ShortcutSlot n members' ref], tbl'), r)
         \<and> ((r = Inr PyTrue)
              = (\<forall>p\<in>set (parameters e). snd (set_mdicts sdr p v members) = Inr PyTrue))
         \<and> (r = Inr PyTrue \<longrightarrow>
              (\<forall>p\<in>set (parameters e). get_mdicts sdr p members' = Some v)
              \<and> map_option mvalue (map_of (mapping_of tbl' ref) nm) = Some (Some v))
         \<and> (r \<noteq> Inr PyTrue \<longrightarrow> tbl' = tbl)
         \<and> (\<forall>ps1 q ps2.
               parameters e = ps1 @ q # ps2
               \<and> (\<forall>p\<in>set ps1. snd (set_mdicts sdr p v members) = Inr PyTrue)
               \<and> snd (set_mdicts sdr q v members) \<noteq> Inr PyTrue
              \<longrightarrow> (\<forall>p\<in>set ps1. get_mdicts sdr p members' = Some v))"
proof -
  let ?t = "set_targets sdr v (parameters e) PyTrue members"
  let ?tbl = "if snd ?t = Inr PyTrue then store_value tbl ref nm v else tbl"
  have run: "priv_set sdr nm v [ShortcutSlot n members ref] tbl
      = (([ShortcutSlot n (fst ?t) ref], ?tbl), snd ?t)"
    by (simp add: set_slot_def set_shortcut_proj [OF assms])
  have iff: "(snd ?t = Inr PyTrue)
      = (\<forall>p\<in>set (parameters e). snd (set_mdicts sdr p v members) = Inr PyTrue)"
    by (rule set_targets_true_iff)
  have ok: "snd ?t = Inr PyTrue \<longrightarrow>
      (\<forall>p\<in>set (parameters e). get_mdicts sdr p (fst ?t) = Some v)
      \<and> map_option mvalue (map_of (mapping_of ?tbl ref) nm) = Some (Some v)"
    using set_targets_get [of sdr v "parameters e" members] store_value_lookup [OF assms, of v]
    by simp
  have bad: "snd ?t \<noteq> Inr PyTrue \<longrightarrow> ?tbl = tbl" by simp
  have part: "\<forall>ps1 q ps2.
       parameters e = ps1 @ q # ps2
       \<and> (\<forall>p\<in>set ps1. snd (set_mdicts sdr p v members) = Inr PyTrue)
       \<and> snd (set_mdicts sdr q v members) \<noteq> Inr PyTrue
      \<longrightarrow> (\<forall>p\<in>set ps1. get_mdicts sdr p (fst ?t) = Some v)"
  proof (intro allI impI, elim conjE)
    fix ps1 q ps2
    assume e: "parameters e = ps1 @ q # ps2"
      and a: "\<forall>p\<in>set ps1. snd (set_mdicts sdr p v members) = Inr PyTrue"
      and b: "snd (set_mdicts sdr q v members) \<noteq> Inr PyTrue"
    from set_targets_stops [OF a b, of ps2]
    have "fst ?t = fst (set_targets sdr v ps1 PyTrue members)" by (simp add: e)
    moreover from a have "snd (set_targets sdr v ps1 PyTrue members) = Inr PyTrue"
      by (simp add: set_targets_true_iff)
    ultimately show "\<forall>p\<in>set ps1. get_mdicts sdr p (fst ?t) = Some v"
      using set_targets_get [of sdr v ps1 members] by simp
  qed
  from run iff ok bad part show ?thesis by blast
qed


lemma demo_shortcut_t:
  "loaded_shortcuts demo_app ''t'' = Some \<lparr>sc_modules = ''x'', sc_description = [],
      sc_mapping = [(''P'', \<lparr>parameters = [''A'', ''B''], mvalue = None\<rparr>),
                    (''Q'', \<lparr>parameters = [''A'', ''K''], mvalue = None\<rparr>)]\<rparr>"
  by (simp add: demo_app_def)

lemma load_t:
  "load ''t'' demo_app
     = (demo_app\<lparr>modules := [ShortcutSlot ''t'' [(''x'', Some unit_x)] ''t'']\<rparr>, Installed)"
  by (simp add: load_def pieces_of_def demo_units demo_shortcut_t demo_fields display_name_def)

lemma set_x_A:
  "set_mdicts [] ''A'' ''9'' [(''x'', Some unit_x)]
     = ([(''x'', Some (unit_x\<lparr>args := (args unit_x)(''A'' \<mapsto> ''9'')\<rparr>))], Inr PyTrue)"
  by (simp add: set_mdicts_one set_mdict_def set_module_def unit_x_fields)

lemma set_x_B:
  "set_mdicts [] ''B'' ''9'' [(''x'', Some m)]
     = (if dynamicArgs m \<or> args m ''B'' \<noteq> None
        then ([(''x'', Some (m\<lparr>args := (args m)(''B'' \<mapsto> ''9'')\<rparr>))], Inr PyTrue)
        else ([(''x'', Some m)], Inl IncorrectParameter))"
  by (simp add: set_mdicts_one set_mdict_def set_module_def)

text \<open>
  The claim as stated fails. Shortcut \<open>t\<close> of the example application maps \<open>P\<close> to the
  targets \<open>A\<close> and \<open>B\<close> of its member \<open>x\<close>, which declares \<open>A\<close> and not \<open>B\<close>. Setting \<open>P\<close> to
  \<open>9\<close> raises \<open>IncorrectParameter\<close> at \<open>B\<close> and leaves the table as it was, but \<open>A\<close>, which
  held \<open>0\<close>, now holds \<open>9\<close>.
\<close>

theorem shortcut_set_keeps_partial_writes:
  "snd (set_mdicts (SDR_PARAMETERS demo_app) ''B'' ''9'' [(''x'', Some unit_x)])
     = Inl IncorrectParameter
   \<and> priv_set (SDR_PARAMETERS demo_app) ''P'' ''9'' (modules (fst (load ''t'' demo_app)))
         (loaded_shortcuts (fst (load ''t'' demo_app)))
       = (([ShortcutSlot ''t'' [(''x'', Some (unit_x\<lparr>args := (args unit_x)(''A'' \<mapsto> ''9'')\<rparr>))] ''t''],
           loaded_shortcuts demo_app), Inl IncorrectParameter)
   \<and> get_mdicts (SDR_PARAMETERS demo_app) ''A'' [(''x'', Some unit_x)] = Some ''0''
   \<and> get_mdicts (SDR_PARAMETERS demo_app) ''A''
         [(''x'', Some (unit_x\<lparr>args := (args unit_x)(''A'' \<mapsto> ''9'')\<rparr>))] = Some ''9''"
  by (simp add: load_t demo_fields set_slot_def set_shortcut_def mapping_of_def demo_shortcut_t
      set_targets_Cons set_x_A set_x_B unit_x_fields get_mdict_def get_module_def)

text \<open>
  Parameter \<open>Q\<close> of shortcut \<open>t\<close> has the targets \<open>A\<close> and \<open>K\<close>, both declared by \<open>x\<close>.
\<close>

theorem shortcut_set_fans_out_witness:
  "map_of (mapping_of (loaded_shortcuts demo_app) ''t'') ''Q''
     = Some \<lparr>parameters = [''A'', ''K''], mvalue = None\<rparr>
   \<and> (\<exists>members' tbl'.
         priv_set [] ''Q'' ''9'' [ShortcutSlot ''t'' [(''x'', Some unit_x)] ''t''] (loaded_shortcuts demo_app)
           = (([ShortcutSlot ''t'' members' ''t''], tbl'), Inr PyTrue)
         \<and> get_mdicts [] ''A'' members' = Some ''9''
         \<and> get_mdicts [] ''K'' members' = Some ''9''
         \<and> map_option mvalue (map_of (mapping_of tbl' ''t'') ''Q'') = Some (Some ''9''))"
proof -
  let ?e = "\<lparr>parameters = [''A'', ''K''], mvalue = (None :: string option)\<rparr>"
  have e: "map_of (mapping_of (loaded_shortcuts demo_app) ''t'') ''Q'' = Some ?e"
    by (simp add: mapping_of_def demo_shortcut_t)
  have all: "\<forall>p\<in>set (parameters ?e). snd (set_mdicts [] p ''9'' [(''x'', Some unit_x)]) = Inr PyTrue"
    by (simp add: set_mdicts_one set_mdict_def set_module_def unit_x_fields)
  from shortcut_set_fans_out [OF e, of "[]" "''9''" "''t''" "[(''x'', Some unit_x)]"]
  obtain members' tbl' r where
    run: "priv_set [] ''Q'' ''9'' [ShortcutSlot ''t'' [(''x'', Some unit_x)] ''t''] (loaded_shortcuts demo_app)
           = (([ShortcutSlot ''t'' members' ''t''], tbl'), r)"
    and iff: "(r = Inr PyTrue)
              = (\<forall>p\<in>set (parameters ?e). snd (set_mdicts [] p ''9'' [(''x'', Some unit_x)]) = Inr PyTrue)"
    and ok: "r = Inr PyTrue \<longrightarrow>
              (\<forall>p\<in>set (parameters ?e). get_mdicts [] p members' = Some ''9'')
              \<and> map_option mvalue (map_of (mapping_of tbl' ''t'') ''Q'') = Some (Some ''9'')"
    by blast
  from iff all have r: "r = Inr PyTrue" by simp
  with ok have "get_mdicts [] ''A'' members' = Some ''9''" "get_mdicts [] ''K'' members' = Some ''9''"
    "map_option mvalue (map_of (mapping_of tbl' ''t'') ''Q'') = Some (Some ''9'')"
    by simp_all
  with run r e show ?thesis by blast
qed

paragraph \<open>The members' \<open>_set\<close> is the pipeline's\<close>

text \<open>
  On a list of module dictionaries \<open>priv_set\<close> and \<open>set_mdicts\<close> are the same function:
  both embed \<open>_set\<close>, one for the pipeline and one for the members of a shortcut.
\<close>

lemma set_slot_as_slot:
  "set_slot sdr nm v (as_slot d) tbl
     = ((as_slot (fst (set_mdict sdr nm v d)), tbl), snd (set_mdict sdr nm v d))"
  by (cases d; cases "snd d") (simp_all add: set_slot_def as_slot_def set_mdict_Some set_mdict_None)

lemma set_named_slot_as_slot:
  "set_named_slot sdr mn an v (map as_slot ds) tbl
     = ((map as_slot (fst (set_named_mdict sdr mn an v ds)), tbl),
        snd (set_named_mdict sdr mn an v ds))"
proof (induction ds)
  case Nil
  then show ?case by simp
next
  case (Cons d ds)
  have m: "slot_matches mn (as_slot d) = (snd d \<noteq> None \<and> mn = fst d)"
    by (simp add: as_slot_def)
  show ?case
    by (simp add: m set_slot_as_slot Cons.IH set_named_mdict_Cons del: set_named_mdict.simps(2))
qed

lemma priv_set_long:
  "2 \<le> length ss \<Longrightarrow> priv_set sdr nm v ss tbl
     = (if CHR ''.'' \<in> set nm
        then (case split_dotted nm of
                Inl e \<Rightarrow> ((ss, tbl), Inl e)
              | Inr (mn, an) \<Rightarrow> set_named_slot sdr mn an v ss tbl)
        else ((ss, tbl), Inl MultipleModulesLoaded))"
  by (cases ss; cases "tl ss") auto

lemma priv_set_as_slot:
  "priv_set sdr nm v (map as_slot ds) tbl
     = ((map as_slot (fst (set_mdicts sdr nm v ds)), tbl), snd (set_mdicts sdr nm v ds))"
  using list_shape [of ds]
proof (elim disjE exE)
  assume "2 \<le> length ds"
  then show ?thesis
    by (auto simp: priv_set_long set_mdicts_long set_named_slot_as_slot split: sum.splits)
qed (auto simp: set_slot_as_slot set_mdicts_one)

end
